theory Spec2Isabelle
  imports Main "HOL-Library.Word"
begin

section \<open>The Fernet token scheme of \<^verbatim>\<open>src/cryptography/fernet.py\<close>\<close>

text \<open>
  Python \<^verbatim>\<open>bytes\<close> are lists of 8-bit words. Python integers (timestamps, ttl, the
  clock) are unbounded and are modelled as \<^typ>\<open>int\<close>. The exceptions that the module
  and the library calls it makes can raise are the constructors of \<open>error\<close>;
  a fallible function returns \<open>error + 'a\<close>, with \<open>Inl\<close> for a raised exception.
\<close>

type_synonym byte = "8 word"
type_synonym bytes = "byte list"

datatype error =
    InvalidToken
  | ValueError
  | BinasciiError
  | StructError
  | IndexError

text \<open>
  Python's class hierarchy: \<^verbatim>\<open>binascii.Error\<close> is a subclass of \<^verbatim>\<open>ValueError\<close>,
  so an \<^verbatim>\<open>except ValueError\<close> handler catches both.
\<close>

fun is_ValueError :: "error \<Rightarrow> bool" where
  "is_ValueError ValueError = True"
| "is_ValueError BinasciiError = True"
| "is_ValueError _ = False"

subsection \<open>The standard library: \<^verbatim>\<open>base64\<close>\<close>

text \<open>
  \<^verbatim>\<open>binascii\<close>'s tables. \<open>table_b2a_base64\<close> maps a 6-bit value to its character
  in the standard alphabet; \<open>table_a2b_base64\<close> is its inverse, \<open>None\<close> for a byte
  outside the alphabet.
\<close>

definition table_b2a_base64 :: "nat \<Rightarrow> byte" where
  "table_b2a_base64 i =
     (if i < 26 then of_nat (65 + i)
      else if i < 52 then of_nat (71 + i)
      else if i < 62 then of_nat (i - 4)
      else if i = 62 then 43
      else 47)"

definition table_a2b_base64 :: "byte \<Rightarrow> nat option" where
  "table_a2b_base64 c =
     (let n = unat c in
      if 65 \<le> n \<and> n \<le> 90 then Some (n - 65)
      else if 97 \<le> n \<and> n \<le> 122 then Some (n - 71)
      else if 48 \<le> n \<and> n \<le> 57 then Some (n + 4)
      else if n = 43 then Some 62
      else if n = 47 then Some 63
      else None)"

text \<open>
  \<^verbatim>\<open>binascii.b2a_base64(s, newline=False)\<close>: three bytes become four characters;
  a last group of one or two bytes is padded with \<^verbatim>\<open>=\<close> (byte 61).
\<close>

fun b2a_base64 :: "bytes \<Rightarrow> bytes" where
  "b2a_base64 [] = []"
| "b2a_base64 [a] =
     [table_b2a_base64 (unat a div 4),
      table_b2a_base64 ((unat a mod 4) * 16),
      61, 61]"
| "b2a_base64 [a, b] =
     [table_b2a_base64 (unat a div 4),
      table_b2a_base64 ((unat a mod 4) * 16 + unat b div 16),
      table_b2a_base64 ((unat b mod 16) * 4),
      61]"
| "b2a_base64 (a # b # c # rest) =
     [table_b2a_base64 (unat a div 4),
      table_b2a_base64 ((unat a mod 4) * 16 + unat b div 16),
      table_b2a_base64 ((unat b mod 16) * 4 + unat c div 64),
      table_b2a_base64 (unat c mod 64)] @ b2a_base64 rest"

text \<open>
  \<^verbatim>\<open>binascii.a2b_base64(s)\<close> in its default, non-strict mode, as CPython's
  \<^verbatim>\<open>binascii.c\<close> implements it: one pass over the input with the state \<open>quad_pos\<close> (position in the current group of
  four), \<open>leftchar\<close> (the bits not yet written), \<open>pads\<close> (the padding characters just
  seen) and the output so far. A byte outside the alphabet is skipped. A padding
  character ends the input once it completes a group; otherwise it is skipped. At the
  end of the input an incomplete group raises \<^verbatim>\<open>binascii.Error\<close>, here \<open>None\<close>.
\<close>

fun a2b_loop :: "bytes \<Rightarrow> nat \<Rightarrow> nat \<Rightarrow> nat \<Rightarrow> bytes \<Rightarrow> bytes option" where
  "a2b_loop [] quad_pos leftchar pads out =
     (if quad_pos \<noteq> 0 then None else Some out)"
| "a2b_loop (this_ch # rest) quad_pos leftchar pads out =
     (if this_ch = 61 then
        (if quad_pos \<ge> 2 \<and> quad_pos + (pads + 1) \<ge> 4 then Some out
         else a2b_loop rest quad_pos leftchar
                (if quad_pos \<ge> 2 then pads + 1 else pads) out)
      else
        (case table_a2b_base64 this_ch of
           None \<Rightarrow> a2b_loop rest quad_pos leftchar pads out
         | Some v \<Rightarrow>
             (if quad_pos = 0 then a2b_loop rest 1 v 0 out
              else if quad_pos = 1 then
                a2b_loop rest 2 (v mod 16) 0
                  (out @ [of_nat ((leftchar * 4 + v div 16) mod 256)])
              else if quad_pos = 2 then
                a2b_loop rest 3 (v mod 4) 0
                  (out @ [of_nat ((leftchar * 16 + v div 4) mod 256)])
              else
                a2b_loop rest 0 0 0
                  (out @ [of_nat ((leftchar * 64 + v) mod 256)]))))"

definition a2b_base64 :: "bytes \<Rightarrow> bytes option" where
  "a2b_base64 s = a2b_loop s 0 0 0 []"

text \<open>
  \<^verbatim>\<open>base64.urlsafe_b64encode\<close> and \<^verbatim>\<open>base64.urlsafe_b64decode\<close>: the standard
  codec with \<^verbatim>\<open>+\<close> (43) and \<^verbatim>\<open>/\<close> (47) translated to \<^verbatim>\<open>-\<close> (45) and \<^verbatim>\<open>_\<close> (95)
  after encoding, and back before decoding.
\<close>

definition urlsafe_encode_translation :: "byte \<Rightarrow> byte" where
  "urlsafe_encode_translation c = (if c = 43 then 45 else if c = 47 then 95 else c)"

definition urlsafe_decode_translation :: "byte \<Rightarrow> byte" where
  "urlsafe_decode_translation c = (if c = 45 then 43 else if c = 95 then 47 else c)"

definition urlsafe_b64encode :: "bytes \<Rightarrow> bytes" where
  "urlsafe_b64encode s = map urlsafe_encode_translation (b2a_base64 s)"

definition urlsafe_b64decode :: "bytes \<Rightarrow> bytes option" where
  "urlsafe_b64decode s = a2b_base64 (map urlsafe_decode_translation s)"

subsection \<open>The standard library: \<^verbatim>\<open>struct\<close>\<close>

text \<open>
  \<^verbatim>\<open>struct.pack(">Q", n)\<close> writes \<open>n\<close> as eight bytes, most significant first, and
  raises \<^verbatim>\<open>struct.error\<close> when \<open>n\<close> is not in \<open>[0, 2^64 - 1]\<close>.
  \<^verbatim>\<open>struct.unpack(">Q", b)\<close> raises \<^verbatim>\<open>struct.error\<close> unless \<open>b\<close> has exactly eight
  bytes.
\<close>

fun be_bytes :: "nat \<Rightarrow> int \<Rightarrow> bytes" where
  "be_bytes 0 n = []"
| "be_bytes (Suc k) n = be_bytes k (n div 256) @ [of_int (n mod 256)]"

definition be_int :: "bytes \<Rightarrow> int" where
  "be_int bs = foldl (\<lambda>acc b. acc * 256 + uint b) 0 bs"

definition struct_pack_Q :: "int \<Rightarrow> error + bytes" where
  "struct_pack_Q n =
     (if n < 0 \<or> 2 ^ 64 \<le> n then Inl StructError else Inr (be_bytes 8 n))"

definition struct_unpack_Q :: "bytes \<Rightarrow> error + int" where
  "struct_unpack_Q b =
     (if length b \<noteq> 8 then Inl StructError else Inr (be_int b))"

subsection \<open>The primitive provider\<close>

text \<open>
  The block cipher and the MAC are computed by the backend (OpenSSL), outside this
  module. They are parameters of the model:
  \<^item> \<open>aes_cbc_encrypt key iv data\<close> is \<^verbatim>\<open>encryptor.update(data) + encryptor.finalize()\<close>
    of \<^verbatim>\<open>Cipher(AES(key), CBC(iv))\<close>;
  \<^item> \<open>aes_cbc_decrypt key iv data\<close> is \<^verbatim>\<open>decryptor.update(data) + decryptor.finalize()\<close>,
    \<open>None\<close> when \<^verbatim>\<open>finalize\<close> raises \<^verbatim>\<open>ValueError\<close>;
  \<^item> \<open>hmac_sha256 key data\<close> is the digest of \<^verbatim>\<open>HMAC(key, SHA256())\<close> over \<open>data\<close>.
\<close>

record backend =
  aes_cbc_encrypt :: "bytes \<Rightarrow> bytes \<Rightarrow> bytes \<Rightarrow> bytes"
  aes_cbc_decrypt :: "bytes \<Rightarrow> bytes \<Rightarrow> bytes \<Rightarrow> bytes option"
  hmac_sha256 :: "bytes \<Rightarrow> bytes \<Rightarrow> bytes"

text \<open>
  What the module relies on: a SHA-256 digest has 32 bytes; CBC without cipher-level
  padding returns as many bytes as it is given; decryption inverts encryption on
  block-aligned data under a 16-byte key and a 16-byte IV.
\<close>

definition digest_size_ok :: "backend \<Rightarrow> bool" where
  "digest_size_ok B \<longleftrightarrow> (\<forall>key data. length (hmac_sha256 B key data) = 32)"

definition cbc_length_ok :: "backend \<Rightarrow> bool" where
  "cbc_length_ok B \<longleftrightarrow>
     (\<forall>key iv data p. aes_cbc_decrypt B key iv data = Some p \<longrightarrow> length p = length data)"

definition cbc_inverse_ok :: "backend \<Rightarrow> bool" where
  "cbc_inverse_ok B \<longleftrightarrow>
     (\<forall>key iv p. length key = 16 \<longrightarrow> length iv = 16 \<longrightarrow> length p mod 16 = 0 \<longrightarrow>
        aes_cbc_decrypt B key iv (aes_cbc_encrypt B key iv p) = Some p)"

definition backend_ok :: "backend \<Rightarrow> bool" where
  "backend_ok B \<longleftrightarrow> digest_size_ok B \<and> cbc_length_ok B \<and> cbc_inverse_ok B"

text \<open>
  \<^verbatim>\<open>Cipher(algorithms.AES(key), modes.CBC(iv), backend)\<close> validates its arguments and
  raises \<^verbatim>\<open>ValueError\<close> for a key that is not 128, 192, 256 or 512 bits long and for
  an IV that is not one block (16 bytes) long. In \<open>fernet.py\<close> the constructor call
  is outside every \<^verbatim>\<open>try\<close>.
\<close>

definition Cipher_init :: "bytes \<Rightarrow> bytes \<Rightarrow> error + unit" where
  "Cipher_init key iv =
     (if length key * 8 \<notin> {128, 192, 256, 512} then Inl ValueError
      else if length iv * 8 \<noteq> 128 then Inl ValueError
      else Inr ())"

text \<open>
  Modelled from the spec: \<^verbatim>\<open>cryptography/hazmat/primitives/padding.py\<close> is not among
  the sources. The spec describes \<^verbatim>\<open>padding.PKCS7(128)\<close> as reversible block padding
  to a multiple of 16 bytes, "standard byte-padding where the pad value encodes the
  pad length", whose removal fails on an invalid padding pattern. \<open>pkcs7_pad\<close> is
  \<^verbatim>\<open>padder.update(data) + padder.finalize()\<close>; \<open>pkcs7_unpad\<close> is
  \<^verbatim>\<open>unpadder.update(data) + unpadder.finalize()\<close>, \<open>None\<close> when \<^verbatim>\<open>finalize\<close>
  raises \<^verbatim>\<open>ValueError\<close>: the unpadder holds back the last block, which must be
  complete and end in \<open>n\<close> bytes of value \<open>n\<close>, \<open>1 \<le> n \<le> 16\<close>.
\<close>

definition pkcs7_pad :: "bytes \<Rightarrow> bytes" where
  "pkcs7_pad data =
     (let pad_size = 16 - length data mod 16
      in data @ replicate pad_size (of_nat pad_size))"

definition check_pkcs7_padding :: "bytes \<Rightarrow> bool" where
  "check_pkcs7_padding buffer \<longleftrightarrow>
     (let pad_size = unat (last buffer)
      in 0 < pad_size \<and> pad_size \<le> length buffer \<and>
         drop (length buffer - pad_size) buffer = replicate pad_size (last buffer))"

definition pkcs7_unpad :: "bytes \<Rightarrow> bytes option" where
  "pkcs7_unpad data =
     (let finished_blocks = length data div 16 - 1;
          result = take (finished_blocks * 16) data;
          buffer = drop (finished_blocks * 16) data
      in if length buffer \<noteq> 16 then None
         else if \<not> check_pkcs7_padding buffer then None
         else Some (result @ take (16 - unat (last buffer)) buffer))"

subsection \<open>\<^verbatim>\<open>class Fernet\<close>\<close>

definition MAX_CLOCK_SKEW :: int where
  "MAX_CLOCK_SKEW = 60"

record fernet =
  signing_key :: bytes
  encryption_key :: bytes

text \<open>
  \<^verbatim>\<open>Fernet.__init__(key)\<close>. A key that is not valid base64 raises \<^verbatim>\<open>binascii.Error\<close>.
  (The source has an unresolved merge conflict in the signature of \<^verbatim>\<open>__init__\<close>; the
  two sides differ only in the annotation of \<^verbatim>\<open>backend\<close>, and the body is one.)
\<close>

definition Fernet_init :: "bytes \<Rightarrow> error + fernet" where
  "Fernet_init key =
     (case urlsafe_b64decode key of
        None \<Rightarrow> Inl BinasciiError
      | Some key' \<Rightarrow>
          if length key' \<noteq> 32 then Inl ValueError
          else Inr \<lparr>signing_key = take 16 key', encryption_key = drop 16 key'\<rparr>)"

text \<open>\<^verbatim>\<open>Fernet._encrypt_from_parts(data, current_time, iv)\<close>.\<close>

definition encrypt_from_parts :: "backend \<Rightarrow> fernet \<Rightarrow> bytes \<Rightarrow> int \<Rightarrow> bytes \<Rightarrow> error + bytes" where
  "encrypt_from_parts B self data current_time iv =
     (let padded_data = pkcs7_pad data in
      case Cipher_init (encryption_key self) iv of
        Inl e \<Rightarrow> Inl e
      | Inr _ \<Rightarrow>
          let ciphertext = aes_cbc_encrypt B (encryption_key self) iv padded_data in
          case struct_pack_Q current_time of
            Inl e \<Rightarrow> Inl e
          | Inr packed \<Rightarrow>
              let basic_parts = [0x80] @ packed @ iv @ ciphertext;
                  hmac = hmac_sha256 B (signing_key self) basic_parts
              in Inr (urlsafe_b64encode (basic_parts @ hmac)))"

text \<open>
  \<^verbatim>\<open>Fernet.encrypt_at_time(data, current_time)\<close>; \<open>iv\<close> is the value that
  \<^verbatim>\<open>os.urandom(16)\<close> returns. \<^verbatim>\<open>Fernet.encrypt(data)\<close> reads the clock: \<open>now\<close> is
  \<^verbatim>\<open>int(time.time())\<close>.
\<close>

definition Fernet_encrypt_at_time :: "backend \<Rightarrow> fernet \<Rightarrow> bytes \<Rightarrow> int \<Rightarrow> bytes \<Rightarrow> error + bytes" where
  "Fernet_encrypt_at_time B self data current_time iv =
     encrypt_from_parts B self data current_time iv"

definition Fernet_encrypt :: "backend \<Rightarrow> fernet \<Rightarrow> bytes \<Rightarrow> int \<Rightarrow> bytes \<Rightarrow> error + bytes" where
  "Fernet_encrypt B self data now iv = Fernet_encrypt_at_time B self data now iv"

text \<open>\<^verbatim>\<open>Fernet._get_unverified_token_data(token)\<close>.\<close>

definition get_unverified_token_data :: "bytes \<Rightarrow> error + (int \<times> bytes)" where
  "get_unverified_token_data token =
     (case urlsafe_b64decode token of
        None \<Rightarrow> Inl InvalidToken
      | Some data \<Rightarrow>
          if data = [] \<or> hd data \<noteq> 0x80 then Inl InvalidToken
          else
            (case struct_unpack_Q (take 8 (drop 1 data)) of
               Inl e \<Rightarrow> if e = StructError then Inl InvalidToken else Inl e
             | Inr timestamp \<Rightarrow> Inr (timestamp, data)))"

text \<open>
  \<^verbatim>\<open>Fernet._verify_signature(data)\<close>: \<^verbatim>\<open>h.update(data[:-32]); h.verify(data[-32:])\<close>.
  \<^verbatim>\<open>verify\<close> compares the digest with its argument in constant time and raises
  \<^verbatim>\<open>InvalidSignature\<close>, turned into \<^verbatim>\<open>InvalidToken\<close>, when they differ.
\<close>

definition verify_signature :: "backend \<Rightarrow> fernet \<Rightarrow> bytes \<Rightarrow> error + unit" where
  "verify_signature B self data =
     (if hmac_sha256 B (signing_key self) (take (length data - 32) data)
           = drop (length data - 32) data
      then Inr () else Inl InvalidToken)"

text \<open>\<^verbatim>\<open>Fernet._decrypt_data(data, timestamp, time_info)\<close>.\<close>

definition decrypt_data :: "backend \<Rightarrow> fernet \<Rightarrow> bytes \<Rightarrow> int \<Rightarrow> (int \<times> int) option \<Rightarrow> error + bytes" where
  "decrypt_data B self data timestamp time_info =
     (case (case time_info of
              None \<Rightarrow> Inr ()
            | Some (ttl, current_time) \<Rightarrow>
                if timestamp + ttl < current_time then Inl InvalidToken
                else if current_time + MAX_CLOCK_SKEW < timestamp then Inl InvalidToken
                else Inr ()) of
        Inl e \<Rightarrow> Inl e
      | Inr _ \<Rightarrow>
          (case verify_signature B self data of
             Inl e \<Rightarrow> Inl e
           | Inr _ \<Rightarrow>
               let iv = take 16 (drop 9 data);
                   ciphertext = drop 25 (take (length data - 32) data)
               in case Cipher_init (encryption_key self) iv of
                    Inl e \<Rightarrow> Inl e
                  | Inr _ \<Rightarrow>
                      (case aes_cbc_decrypt B (encryption_key self) iv ciphertext of
                         None \<Rightarrow> Inl InvalidToken
                       | Some plaintext_padded \<Rightarrow>
                           (case pkcs7_unpad plaintext_padded of
                              None \<Rightarrow> Inl InvalidToken
                            | Some unpadded \<Rightarrow> Inr unpadded))))"

text \<open>
  \<^verbatim>\<open>Fernet.decrypt(token, ttl=None)\<close>, with \<open>now\<close> the value of \<^verbatim>\<open>int(time.time())\<close>,
  read only when a ttl is given.
\<close>

definition Fernet_decrypt :: "backend \<Rightarrow> fernet \<Rightarrow> bytes \<Rightarrow> int option \<Rightarrow> int \<Rightarrow> error + bytes" where
  "Fernet_decrypt B self token ttl now =
     (case get_unverified_token_data token of
        Inl e \<Rightarrow> Inl e
      | Inr (timestamp, data) \<Rightarrow>
          let time_info = (case ttl of None \<Rightarrow> None | Some t \<Rightarrow> Some (t, now))
          in decrypt_data B self data timestamp time_info)"

text \<open>\<^verbatim>\<open>Fernet.decrypt_at_time(token, ttl, current_time)\<close>.\<close>

definition Fernet_decrypt_at_time :: "backend \<Rightarrow> fernet \<Rightarrow> bytes \<Rightarrow> int option \<Rightarrow> int \<Rightarrow> error + bytes" where
  "Fernet_decrypt_at_time B self token ttl current_time =
     (case ttl of
        None \<Rightarrow> Inl ValueError
      | Some t \<Rightarrow>
          (case get_unverified_token_data token of
             Inl e \<Rightarrow> Inl e
           | Inr (timestamp, data) \<Rightarrow>
               decrypt_data B self data timestamp (Some (t, current_time))))"

text \<open>\<^verbatim>\<open>Fernet.extract_timestamp(token)\<close>.\<close>

definition extract_timestamp :: "backend \<Rightarrow> fernet \<Rightarrow> bytes \<Rightarrow> error + int" where
  "extract_timestamp B self token =
     (case get_unverified_token_data token of
        Inl e \<Rightarrow> Inl e
      | Inr (timestamp, data) \<Rightarrow>
          (case verify_signature B self data of
             Inl e \<Rightarrow> Inl e
           | Inr _ \<Rightarrow> Inr timestamp))"

subsection \<open>\<^verbatim>\<open>class MultiFernet\<close>\<close>

record multifernet =
  fernets :: "fernet list"

definition MultiFernet_init :: "fernet list \<Rightarrow> error + multifernet" where
  "MultiFernet_init fs =
     (if fs = [] then Inl ValueError else Inr \<lparr>fernets = fs\<rparr>)"

text \<open>\<^verbatim>\<open>self._fernets[0]\<close> raises \<^verbatim>\<open>IndexError\<close> on an empty list.\<close>

definition MultiFernet_encrypt_at_time :: "backend \<Rightarrow> multifernet \<Rightarrow> bytes \<Rightarrow> int \<Rightarrow> bytes \<Rightarrow> error + bytes" where
  "MultiFernet_encrypt_at_time B self msg current_time iv =
     (case fernets self of
        [] \<Rightarrow> Inl IndexError
      | f # _ \<Rightarrow> Fernet_encrypt_at_time B f msg current_time iv)"

definition MultiFernet_encrypt :: "backend \<Rightarrow> multifernet \<Rightarrow> bytes \<Rightarrow> int \<Rightarrow> bytes \<Rightarrow> error + bytes" where
  "MultiFernet_encrypt B self msg now iv = MultiFernet_encrypt_at_time B self msg now iv"

text \<open>
  The loop of \<^verbatim>\<open>MultiFernet.rotate\<close>: the first engine whose \<^verbatim>\<open>_decrypt_data\<close>
  returns ends the loop; \<^verbatim>\<open>InvalidToken\<close> moves on to the next engine, any other
  exception propagates; the \<^verbatim>\<open>else\<close> branch of the \<^verbatim>\<open>for\<close> raises \<^verbatim>\<open>InvalidToken\<close>.
\<close>

fun rotate_loop :: "backend \<Rightarrow> fernet list \<Rightarrow> bytes \<Rightarrow> int \<Rightarrow> error + bytes" where
  "rotate_loop B [] data timestamp = Inl InvalidToken"
| "rotate_loop B (f # fs) data timestamp =
     (case decrypt_data B f data timestamp None of
        Inr p \<Rightarrow> Inr p
      | Inl e \<Rightarrow> if e = InvalidToken then rotate_loop B fs data timestamp else Inl e)"

text \<open>\<^verbatim>\<open>MultiFernet.rotate(msg)\<close>; \<open>iv\<close> is the value that \<^verbatim>\<open>os.urandom(16)\<close> returns.\<close>

definition MultiFernet_rotate :: "backend \<Rightarrow> multifernet \<Rightarrow> bytes \<Rightarrow> bytes \<Rightarrow> error + bytes" where
  "MultiFernet_rotate B self msg iv =
     (case get_unverified_token_data msg of
        Inl e \<Rightarrow> Inl e
      | Inr (timestamp, data) \<Rightarrow>
          (case rotate_loop B (fernets self) data timestamp of
             Inl e \<Rightarrow> Inl e
           | Inr p \<Rightarrow>
               (case fernets self of
                  [] \<Rightarrow> Inl IndexError
                | f # _ \<Rightarrow> encrypt_from_parts B f p timestamp iv)))"

text \<open>
  \<^verbatim>\<open>MultiFernet.decrypt(msg, ttl=None)\<close>. Each engine's \<^verbatim>\<open>decrypt\<close> reads the clock
  itself: \<open>clock i\<close> is the reading of the \<open>i\<close>-th engine tried.
\<close>

fun MultiFernet_decrypt_loop :: "backend \<Rightarrow> fernet list \<Rightarrow> bytes \<Rightarrow> int option \<Rightarrow> (nat \<Rightarrow> int) \<Rightarrow> error + bytes" where
  "MultiFernet_decrypt_loop B [] msg ttl clock = Inl InvalidToken"
| "MultiFernet_decrypt_loop B (f # fs) msg ttl clock =
     (case Fernet_decrypt B f msg ttl (clock 0) of
        Inr p \<Rightarrow> Inr p
      | Inl e \<Rightarrow>
          if e = InvalidToken
          then MultiFernet_decrypt_loop B fs msg ttl (\<lambda>i. clock (Suc i))
          else Inl e)"

definition MultiFernet_decrypt :: "backend \<Rightarrow> multifernet \<Rightarrow> bytes \<Rightarrow> int option \<Rightarrow> (nat \<Rightarrow> int) \<Rightarrow> error + bytes" where
  "MultiFernet_decrypt B self msg ttl clock =
     MultiFernet_decrypt_loop B (fernets self) msg ttl clock"

text \<open>\<^verbatim>\<open>MultiFernet.decrypt_at_time(msg, ttl, current_time)\<close>.\<close>

fun MultiFernet_decrypt_at_time_loop :: "backend \<Rightarrow> fernet list \<Rightarrow> bytes \<Rightarrow> int option \<Rightarrow> int \<Rightarrow> error + bytes" where
  "MultiFernet_decrypt_at_time_loop B [] msg ttl current_time = Inl InvalidToken"
| "MultiFernet_decrypt_at_time_loop B (f # fs) msg ttl current_time =
     (case Fernet_decrypt_at_time B f msg ttl current_time of
        Inr p \<Rightarrow> Inr p
      | Inl e \<Rightarrow>
          if e = InvalidToken
          then MultiFernet_decrypt_at_time_loop B fs msg ttl current_time
          else Inl e)"

definition MultiFernet_decrypt_at_time :: "backend \<Rightarrow> multifernet \<Rightarrow> bytes \<Rightarrow> int option \<Rightarrow> int \<Rightarrow> error + bytes" where
  "MultiFernet_decrypt_at_time B self msg ttl current_time =
     MultiFernet_decrypt_at_time_loop B (fernets self) msg ttl current_time"

subsection \<open>A backend for executing the model\<close>

text \<open>
  A small stand-in for the primitive provider, used to run the model on concrete
  tokens. It is not a secure cipher or MAC; it only has the shape the module relies
  on: a 32-byte digest that depends on the key and the data, and a length-preserving
  cipher whose decryption inverts its encryption and rejects unaligned input.
\<close>

definition test_hmac :: "bytes \<Rightarrow> bytes \<Rightarrow> bytes" where
  "test_hmac key data =
     replicate 16 (sum_list data + of_nat (length data)) @ take 16 (key @ replicate 16 0)"

definition test_backend :: backend where
  "test_backend =
     \<lparr>aes_cbc_encrypt = (\<lambda>key iv data. map (\<lambda>b. b + sum_list key + sum_list iv) data),
      aes_cbc_decrypt = (\<lambda>key iv data.
         if length data mod 16 \<noteq> 0 then None
         else Some (map (\<lambda>b. b - sum_list key - sum_list iv) data)),
      hmac_sha256 = test_hmac\<rparr>"

definition key_a :: bytes where
  "key_a = urlsafe_b64encode (replicate 16 1 @ replicate 16 2)"

definition key_b :: bytes where
  "key_b = urlsafe_b64encode (replicate 16 3 @ replicate 16 4)"

definition fernet_a :: fernet where
  "fernet_a = \<lparr>signing_key = replicate 16 1, encryption_key = replicate 16 2\<rparr>"

definition fernet_b :: fernet where
  "fernet_b = \<lparr>signing_key = replicate 16 3, encryption_key = replicate 16 4\<rparr>"

definition iv_a :: bytes where
  "iv_a = replicate 16 9"

definition hello :: bytes where
  "hello = [104, 101, 108, 108, 111]"

text \<open>
  Concrete tokens: \<open>token_a\<close> and \<open>token_b\<close> are the payload \<open>hello\<close> encrypted at
  time 1000 under the two engines; \<open>bad_tag_token\<close> has a well-formed body with a
  wrong tag; \<open>short_token\<close> is a signed body of 41 bytes; \<open>malformed_token\<close> is the
  single character \<^verbatim>\<open>A\<close>, which is not valid base64; \<open>wrong_version_token\<close> starts
  with \<open>0x81\<close>.
\<close>

definition token_a :: bytes where
  "token_a = (case Fernet_encrypt_at_time test_backend fernet_a hello 1000 iv_a of
                Inr tok \<Rightarrow> tok | Inl _ \<Rightarrow> [])"

definition bad_tag_data :: bytes where
  "bad_tag_data = [0x80] @ be_bytes 8 1000 @ iv_a @ replicate 16 0 @ replicate 32 0"

definition bad_tag_token :: bytes where
  "bad_tag_token = urlsafe_b64encode bad_tag_data"

definition short_data :: bytes where
  "short_data = [0x80] @ be_bytes 8 1000
      @ test_hmac (signing_key fernet_a) ([0x80] @ be_bytes 8 1000)"

definition short_token :: bytes where
  "short_token = urlsafe_b64encode short_data"

definition malformed_token :: bytes where
  "malformed_token = [65]"

definition wrong_version_token :: bytes where
  "wrong_version_token = urlsafe_b64encode ([0x81] @ be_bytes 8 1000 @ replicate 48 0)"

text \<open>
  Two tokens, for any backend and engine, that carry a valid tag but cannot be
  decrypted: \<open>zero_block_token\<close> encrypts one block of zero bytes, which is not a
  padded plaintext; \<open>headless_token\<close> signs the version byte and the timestamp alone.
\<close>

definition zero_block_token :: "backend \<Rightarrow> fernet \<Rightarrow> int \<Rightarrow> bytes \<Rightarrow> bytes" where
  "zero_block_token B f T iv =
     (let basic_parts = [0x80] @ be_bytes 8 T @ iv
            @ aes_cbc_encrypt B (encryption_key f) iv (replicate 16 0)
      in urlsafe_b64encode (basic_parts @ hmac_sha256 B (signing_key f) basic_parts))"

definition headless_token :: "backend \<Rightarrow> fernet \<Rightarrow> int \<Rightarrow> bytes" where
  "headless_token B f T =
     (let basic_parts = [0x80] @ be_bytes 8 T
      in urlsafe_b64encode (basic_parts @ hmac_sha256 B (signing_key f) basic_parts))"

definition token_b :: bytes where
  "token_b = (case Fernet_encrypt_at_time test_backend fernet_b hello 1000 iv_a of
                Inr tok \<Rightarrow> tok | Inl _ \<Rightarrow> [])"

definition ring_ab :: multifernet where
  "ring_ab = \<lparr>fernets = [fernet_a, fernet_b]\<rparr>"

section \<open>Properties of the library functions\<close>

subsection \<open>\<^verbatim>\<open>base64\<close>: decoding inverts encoding\<close>

lemma unat_byte_of_nat: "n < 256 \<Longrightarrow> unat (of_nat n :: byte) = n"
  by (simp add: unat_of_nat)

lemma unat_table_b2a:
  "i < 64 \<Longrightarrow> unat (table_b2a_base64 i) =
     (if i < 26 then 65 + i else if i < 52 then 71 + i else if i < 62 then i - 4
      else if i = 62 then 43 else 47)"
  unfolding table_b2a_base64_def
  by (simp only: unat_byte_of_nat split: if_splits) (auto simp: unat_byte_of_nat)

lemma table_a2b_b2a: "i < 64 \<Longrightarrow> table_a2b_base64 (table_b2a_base64 i) = Some i"
  by (auto simp add: table_a2b_base64_def unat_table_b2a Let_def)

lemma table_b2a_not_pad: "i < 64 \<Longrightarrow> table_b2a_base64 i \<noteq> 61"
proof
  assume "i < 64" "table_b2a_base64 i = 61"
  then have "unat (table_b2a_base64 i) = 61" by simp
  with \<open>i < 64\<close> show False by (auto simp add: unat_table_b2a split: if_splits)
qed

lemma urlsafe_translation_inverse:
  "i < 64 \<Longrightarrow> urlsafe_decode_translation (urlsafe_encode_translation (table_b2a_base64 i)) = table_b2a_base64 i"
proof -
  assume i: "i < 64"
  have "unat (table_b2a_base64 i) \<noteq> 45" "unat (table_b2a_base64 i) \<noteq> 95"
    using i by (auto simp add: unat_table_b2a)
  then have "table_b2a_base64 i \<noteq> 45" "table_b2a_base64 i \<noteq> 95" by auto
  then show ?thesis
    by (simp add: urlsafe_decode_translation_def urlsafe_encode_translation_def)
qed

lemma unat_byte_lt: "unat (a::byte) < 256"
  using unsigned_less[of a, where 'a=nat] by simp

lemma a2b_loop_symbol:
  assumes "i < 64"
  shows "a2b_loop (urlsafe_decode_translation (urlsafe_encode_translation (table_b2a_base64 i)) # rest)
           quad_pos leftchar pads out =
         (if quad_pos = 0 then a2b_loop rest 1 i 0 out
          else if quad_pos = 1 then
            a2b_loop rest 2 (i mod 16) 0 (out @ [of_nat ((leftchar * 4 + i div 16) mod 256)])
          else if quad_pos = 2 then
            a2b_loop rest 3 (i mod 4) 0 (out @ [of_nat ((leftchar * 16 + i div 4) mod 256)])
          else a2b_loop rest 0 0 0 (out @ [of_nat ((leftchar * 64 + i) mod 256)]))"
  using assms
  by (simp add: urlsafe_translation_inverse table_a2b_b2a table_b2a_not_pad)

lemma a2b_loop_pad:
  "a2b_loop (urlsafe_decode_translation (urlsafe_encode_translation 61) # rest)
     quad_pos leftchar pads out =
   (if quad_pos \<ge> 2 \<and> quad_pos + (pads + 1) \<ge> 4 then Some out
    else a2b_loop rest quad_pos leftchar (if quad_pos \<ge> 2 then pads + 1 else pads) out)"
  by (simp add: urlsafe_decode_translation_def urlsafe_encode_translation_def)

lemma byte_split4: "of_nat ((unat (a::byte) div 4 * 4 + ((unat a mod 4) * 16 + r) div 16) mod 256) = a" if "r < 16"
proof -
  have "((unat a mod 4) * 16 + r) div 16 = unat a mod 4" using that by simp
  moreover have "unat a < 256" using unat_byte_lt[of a] by simp
  ultimately show ?thesis by simp
qed

lemma byte_split16:
  "of_nat ((((unat (a::byte) mod 4) * 16 + unat (b::byte) div 16) mod 16 * 16 + ((unat b mod 16) * 4 + r) div 4) mod 256) = b" if "r < 4"
proof -
  have "((unat b mod 16) * 4 + r) div 4 = unat b mod 16" using that by simp
  moreover have "unat b < 256" using unat_byte_lt[of b] by simp
  moreover have "((unat a mod 4) * 16 + unat b div 16) mod 16 = unat b div 16"
    using \<open>unat b < 256\<close> by simp
  ultimately show ?thesis by simp
qed

lemma byte_split64:
  "of_nat ((((unat (b::byte) mod 16) * 4 + unat (c::byte) div 64) mod 4 * 64 + unat c mod 64) mod 256) = c"
proof -
  have "unat c < 256" using unat_byte_lt[of c] by simp
  moreover have "((unat b mod 16) * 4 + unat c div 64) mod 4 = unat c div 64"
    using \<open>unat c < 256\<close> by simp
  ultimately show ?thesis by simp
qed

lemma sextet_bounds:
  "unat (a::byte) div 4 < 64"
  "(unat (a::byte) mod 4) * 16 + unat (b::byte) div 16 < 64"
  "(unat (a::byte) mod 4) * 16 < 64"
  "(unat (b::byte) mod 16) * 4 + unat (c::byte) div 64 < 64"
  "(unat (b::byte) mod 16) * 4 < 64"
  "unat (c::byte) mod 64 < 64"
  using unat_byte_lt[of a] unat_byte_lt[of b] unat_byte_lt[of c] by simp_all

lemma a2b_loop_b2a:
  "a2b_loop (map urlsafe_decode_translation (map urlsafe_encode_translation (b2a_base64 s)))
     0 0 0 out = Some (out @ s)"
proof (induction s arbitrary: out rule: b2a_base64.induct)
  case 1
  then show ?case by simp
next
  case (2 a)
  have "unat a < 256" using unat_byte_lt[of a] by simp
  then show ?case
    using byte_split4[of 0 a]
    by (simp add: a2b_loop_symbol a2b_loop_pad sextet_bounds del: a2b_loop.simps(2))
next
  case (3 a b)
  then show ?case
    using byte_split4[of "unat b div 16" a] byte_split16[of 0 a b] unat_byte_lt[of b]
    by (simp add: a2b_loop_symbol a2b_loop_pad sextet_bounds del: a2b_loop.simps(2))
next
  case (4 a b c rest)
  have "a2b_loop (map urlsafe_decode_translation
          (map urlsafe_encode_translation (b2a_base64 (a # b # c # rest)))) 0 0 0 out
        = a2b_loop (map urlsafe_decode_translation
          (map urlsafe_encode_translation (b2a_base64 rest))) 0 0 0 (out @ [a, b, c])"
    using byte_split4[of "unat b div 16" a] byte_split16[of "unat c div 64" a b]
      byte_split64[of b c] unat_byte_lt[of b] unat_byte_lt[of c]
    by (simp add: a2b_loop_symbol sextet_bounds del: a2b_loop.simps(2))
  then show ?case using 4 by simp
qed

lemma urlsafe_b64_roundtrip: "urlsafe_b64decode (urlsafe_b64encode s) = Some s"
  using a2b_loop_b2a[of s "[]"]
  by (simp add: urlsafe_b64decode_def urlsafe_b64encode_def a2b_base64_def del: map_map)

subsection \<open>\<^verbatim>\<open>struct\<close>: unpacking inverts packing\<close>

lemma be_int_snoc: "be_int (xs @ [b]) = be_int xs * 256 + uint b"
  by (simp add: be_int_def)

lemma length_be_bytes: "length (be_bytes k n) = k"
  by (induction k arbitrary: n) auto

lemma be_int_be_bytes: "0 \<le> n \<Longrightarrow> be_int (be_bytes k n) = n mod 256 ^ k"
proof (induction k arbitrary: n)
  case 0
  then show ?case by (simp add: be_int_def)
next
  case (Suc k)
  have u: "uint (of_int (n mod 256) :: byte) = n mod 256"
    by (simp add: uint_word_of_int)
  have "be_int (be_bytes (Suc k) n) = (n div 256) mod 256 ^ k * 256 + n mod 256"
    using Suc by (simp add: be_int_snoc u)
  also have "\<dots> = n mod (256 * 256 ^ k)"
    using zmod_zmult2_eq[of "256 ^ k" n 256] by simp
  finally show ?case by simp
qed

subsection \<open>PKCS7: unpadding inverts padding\<close>

lemma pkcs7_unpad_Nil: "pkcs7_unpad [] = None"
  by (simp add: pkcs7_unpad_def)

lemma length_pkcs7_pad: "length (pkcs7_pad d) = 16 * (length d div 16 + 1)"
proof -
  have "length d mod 16 < 16" by simp
  then have "length d + (16 - length d mod 16) = 16 * (length d div 16 + 1)"
    using div_mult_mod_eq[of "length d" 16] by arith
  then show ?thesis by (simp add: pkcs7_pad_def Let_def)
qed

lemma length_pkcs7_pad_mod: "length (pkcs7_pad d) mod 16 = 0"
  by (simp add: length_pkcs7_pad)

lemma pkcs7_unpad_pad: "pkcs7_unpad (pkcs7_pad d) = Some d"
proof -
  define q where "q = length d div 16"
  define r where "r = length d mod 16"
  define p where "p = 16 - r"
  have r: "r < 16" by (simp add: r_def)
  have len: "length d = 16 * q + r" by (simp add: q_def r_def)
  have p: "0 < p" "p \<le> 16" "r = 16 - p" using r by (simp_all add: p_def)
  have pad: "pkcs7_pad d = d @ replicate p (of_nat p)"
    by (simp add: pkcs7_pad_def Let_def p_def r_def)
  have fb: "length (pkcs7_pad d) div 16 - 1 = q"
    by (simp add: length_pkcs7_pad q_def)
  have q16: "q * 16 \<le> length d" using len by simp
  have res: "take (q * 16) (pkcs7_pad d) = take (q * 16) d"
    using q16 by (simp add: pad)
  have buf: "drop (q * 16) (pkcs7_pad d) = drop (q * 16) d @ replicate p (of_nat p)"
    using q16 by (simp add: pad)
  have lend: "length (drop (q * 16) d) = r" using len by simp
  have lenb: "length (drop (q * 16) (pkcs7_pad d)) = 16"
    using lend p by (simp add: buf del: length_drop)
  have lastb: "last (drop (q * 16) (pkcs7_pad d)) = (of_nat p :: byte)"
    using p by (simp add: buf)
  have up: "unat (of_nat p :: byte) = p" using p by (simp add: unat_byte_of_nat)
  have chk: "check_pkcs7_padding (drop (q * 16) (pkcs7_pad d))"
    unfolding check_pkcs7_padding_def Let_def lastb up lenb
    using p lend len by (simp add: buf del: length_drop)
  have tk: "take (16 - p) (drop (q * 16) (pkcs7_pad d)) = drop (q * 16) d"
    using lend p len by (simp add: buf del: length_drop)
  show ?thesis
    unfolding pkcs7_unpad_def Let_def fb
    using lenb chk by (simp add: lastb up tk res del: length_drop)
qed

section \<open>Properties of the token scheme\<close>

subsection \<open>Parsing, key setup and the shape of a token\<close>

lemma struct_unpack_pack: "0 \<le> n \<Longrightarrow> n < 2 ^ 64 \<Longrightarrow> struct_pack_Q n = Inr p \<Longrightarrow> struct_unpack_Q p = Inr n"
  by (auto simp: struct_pack_Q_def struct_unpack_Q_def length_be_bytes be_int_be_bytes)

lemma struct_pack_Q_length: "struct_pack_Q n = Inr p \<Longrightarrow> length p = 8"
  by (auto simp: struct_pack_Q_def length_be_bytes split: if_splits)

lemma be_int_bounds: "0 \<le> be_int bs \<and> be_int bs < 256 ^ length bs"
proof (induction bs rule: rev_induct)
  case Nil
  then show ?case by (simp add: be_int_def)
next
  case (snoc b bs)
  have "0 \<le> uint b" "uint b < 256" using uint_lt2p[of b] by simp_all
  moreover have "be_int bs + 1 \<le> 256 ^ length bs" using snoc by simp
  then have "(be_int bs + 1) * 256 \<le> 256 ^ length bs * 256" by (rule mult_right_mono) simp
  ultimately show ?case using snoc by (simp add: be_int_snoc algebra_simps)
qed

lemma struct_unpack_Q_range: "struct_unpack_Q b = Inr n \<Longrightarrow> 0 \<le> n \<and> n < 2 ^ 64"
proof -
  assume a: "struct_unpack_Q b = Inr n"
  then have l: "length b = 8" and n: "n = be_int b"
    by (auto simp: struct_unpack_Q_def split: if_splits)
  have "(256::int) ^ 8 = 2 ^ 64" by simp
  with be_int_bounds[of b] l n show ?thesis by simp
qed

lemma get_unverified_token_data_cases:
  "get_unverified_token_data token = Inl InvalidToken \<or>
   (\<exists>ts data. get_unverified_token_data token = Inr (ts, data) \<and>
      urlsafe_b64decode token = Some data \<and> data \<noteq> [] \<and> hd data = 0x80 \<and>
      struct_unpack_Q (take 8 (drop 1 data)) = Inr ts)"
  by (auto simp: get_unverified_token_data_def struct_unpack_Q_def split: option.splits sum.splits if_splits)

lemma get_unverified_token_data_Inr:
  "get_unverified_token_data token = Inr (ts, data) \<Longrightarrow>
     urlsafe_b64decode token = Some data \<and> data \<noteq> [] \<and> hd data = 0x80 \<and>
     struct_unpack_Q (take 8 (drop 1 data)) = Inr ts \<and> 9 \<le> length data \<and> 0 \<le> ts \<and> ts < 2 ^ 64"
proof -
  assume a: "get_unverified_token_data token = Inr (ts, data)"
  then have b: "urlsafe_b64decode token = Some data" "data \<noteq> []" "hd data = 0x80"
    "struct_unpack_Q (take 8 (drop 1 data)) = Inr ts"
    by (auto simp: get_unverified_token_data_def split: option.splits sum.splits if_splits)
  then have "length (take 8 (drop 1 data)) = 8"
    by (auto simp: struct_unpack_Q_def split: if_splits)
  then have "9 \<le> length data" by simp
  with b struct_unpack_Q_range[OF b(4)] show ?thesis by simp
qed

lemma get_unverified_token_data_Inl:
  "get_unverified_token_data token = Inl e \<Longrightarrow> e = InvalidToken"
  using get_unverified_token_data_cases[of token] by auto

lemma Fernet_init_Inr:
  "Fernet_init key = Inr f \<Longrightarrow>
     (\<exists>k. urlsafe_b64decode key = Some k \<and> length k = 32 \<and>
          signing_key f = take 16 k \<and> encryption_key f = drop 16 k)"
  by (auto simp: Fernet_init_def split: option.splits if_splits)

lemma Fernet_init_key_lengths:
  "Fernet_init key = Inr f \<Longrightarrow> length (signing_key f) = 16 \<and> length (encryption_key f) = 16"
  by (auto dest!: Fernet_init_Inr)

lemma Cipher_init_ok: "length key = 16 \<Longrightarrow> length iv = 16 \<Longrightarrow> Cipher_init key iv = Inr ()"
  by (simp add: Cipher_init_def)

lemma decrypt_data_time_info:
  "decrypt_data B f data ts (Some (ttl, now)) =
     (if ts + ttl < now \<or> now + 60 < ts then Inl InvalidToken
      else decrypt_data B f data ts None)"
  by (simp add: decrypt_data_def MAX_CLOCK_SKEW_def)

lemma decrypt_data_timestamp_irrelevant:
  "decrypt_data B f data ts None = decrypt_data B f data ts' None"
  by (simp add: decrypt_data_def)

lemma decrypt_data_bad_tag:
  "verify_signature B f data = Inl e \<Longrightarrow> decrypt_data B f data ts time_info = Inl InvalidToken"
  by (auto simp: decrypt_data_def verify_signature_def split: option.splits if_splits)

text \<open>Layout of a token body.\<close>

lemma token_layout:
  assumes "length packed = 8" "length iv = 16" "length mac = 32"
    and "data = [0x80] @ packed @ iv @ ct @ mac"
  shows "data \<noteq> []" "hd data = 0x80" "take 8 (drop 1 data) = packed"
    "take (length data - 32) data = [0x80] @ packed @ iv @ ct"
    "drop (length data - 32) data = mac"
    "take 16 (drop 9 data) = iv"
    "drop 25 (take (length data - 32) data) = ct"
proof -
  define pre where "pre = [0x80] @ packed @ iv @ ct"
  have d: "data = pre @ mac" and lp: "length pre = 25 + length ct"
    using assms by (simp_all add: pre_def)
  have ld: "length data - 32 = length pre" using assms(3) by (simp add: d)
  show "data \<noteq> []" "hd data = 0x80" "take 8 (drop 1 data) = packed"
    using assms by simp_all
  show t: "take (length data - 32) data = [0x80] @ packed @ iv @ ct"
    unfolding ld by (simp add: d) (simp add: pre_def)
  show "drop (length data - 32) data = mac"
    unfolding ld by (simp add: d)
  show "take 16 (drop 9 data) = iv"
    using assms by simp
  show "drop 25 (take (length data - 32) data) = ct"
    unfolding t using assms by simp
qed

lemma encrypt_from_parts_Inr:
  assumes "length (encryption_key f) = 16" "length iv = 16" "0 \<le> T" "T < 2 ^ 64"
  shows "encrypt_from_parts B f P T iv =
     Inr (urlsafe_b64encode
        ([0x80] @ be_bytes 8 T @ iv @ aes_cbc_encrypt B (encryption_key f) iv (pkcs7_pad P)
          @ hmac_sha256 B (signing_key f)
              ([0x80] @ be_bytes 8 T @ iv @ aes_cbc_encrypt B (encryption_key f) iv (pkcs7_pad P))))"
  using assms by (simp add: encrypt_from_parts_def Cipher_init_ok struct_pack_Q_def Let_def)

lemma encrypt_then_parse:
  assumes B: "backend_ok B" and k: "length (encryption_key f) = 16"
    and iv: "length iv = 16" and T: "0 \<le> T" "T < 2 ^ 64"
  shows "\<exists>tok data. encrypt_from_parts B f P T iv = Inr tok \<and>
           get_unverified_token_data tok = Inr (T, data) \<and>
           verify_signature B f data = Inr () \<and>
           decrypt_data B f data T None = Inr P"
proof -
  define ct where "ct = aes_cbc_encrypt B (encryption_key f) iv (pkcs7_pad P)"
  define mac where "mac = hmac_sha256 B (signing_key f) ([0x80] @ be_bytes 8 T @ iv @ ct)"
  define data where "data = [0x80] @ be_bytes 8 T @ iv @ ct @ mac"
  have lm: "length mac = 32" using B by (simp add: mac_def backend_ok_def digest_size_ok_def)
  have lp: "length (be_bytes 8 T) = 8" by (simp add: length_be_bytes)
  note lay = token_layout[OF lp iv lm data_def]
  have enc: "encrypt_from_parts B f P T iv = Inr (urlsafe_b64encode data)"
    using encrypt_from_parts_Inr[OF k iv T, of B P] by (simp add: data_def mac_def ct_def)
  have unp: "struct_unpack_Q (be_bytes 8 T) = Inr T"
    using T by (simp add: struct_unpack_Q_def length_be_bytes be_int_be_bytes)
  have parse: "get_unverified_token_data (urlsafe_b64encode data) = Inr (T, data)"
    using lay(1,2,3) by (simp add: get_unverified_token_data_def urlsafe_b64_roundtrip unp)
  have ver: "verify_signature B f data = Inr ()"
    using lay(4,5) by (simp add: verify_signature_def mac_def)
  have dec: "aes_cbc_decrypt B (encryption_key f) iv ct = Some (pkcs7_pad P)"
    using B k iv length_pkcs7_pad_mod[of P]
    by (simp add: backend_ok_def cbc_inverse_ok_def ct_def)
  have "decrypt_data B f data T None = Inr P"
    using lay(6,7) by (simp add: decrypt_data_def ver Cipher_init_ok[OF k iv] dec pkcs7_unpad_pad)
  with enc parse ver show ?thesis by blast
qed

lemma Fernet_decrypt_None: 
  "Fernet_decrypt B f token None now =
     (case get_unverified_token_data token of Inl e \<Rightarrow> Inl e
      | Inr (ts, data) \<Rightarrow> decrypt_data B f data ts None)"
  by (simp add: Fernet_decrypt_def split: sum.splits)

lemma Fernet_decrypt_Some:
  "Fernet_decrypt B f token (Some ttl) now = Fernet_decrypt_at_time B f token (Some ttl) now"
  by (simp add: Fernet_decrypt_def Fernet_decrypt_at_time_def split: sum.splits)

lemma Fernet_decrypt_at_time_parsed:
  "get_unverified_token_data token = Inr (ts, data) \<Longrightarrow>
   Fernet_decrypt_at_time B f token (Some ttl) now =
     (if ts + ttl < now \<or> now + 60 < ts then Inl InvalidToken
      else decrypt_data B f data ts None)"
  by (simp add: Fernet_decrypt_at_time_def decrypt_data_time_info)

subsection \<open>Verification and the errors of decryption\<close>

lemma verify_signature_Inr:
  "verify_signature B f data = Inr u \<longleftrightarrow>
     hmac_sha256 B (signing_key f) (take (length data - 32) data) = drop (length data - 32) data"
  by (simp add: verify_signature_def)

lemma verify_signature_Inl:
  "verify_signature B f data = Inl e \<longleftrightarrow>
     e = InvalidToken \<and>
     hmac_sha256 B (signing_key f) (take (length data - 32) data) \<noteq> drop (length data - 32) data"
  by (auto simp: verify_signature_def)

lemma verified_length:
  assumes "digest_size_ok B" and "verify_signature B f data = Inr u"
  shows "32 \<le> length data"
proof -
  have "hmac_sha256 B (signing_key f) (take (length data - 32) data)
          = drop (length data - 32) data"
    using assms(2) by (simp add: verify_signature_Inr)
  moreover have "length (hmac_sha256 B (signing_key f) (take (length data - 32) data)) = 32"
    using assms(1) by (simp add: digest_size_ok_def)
  ultimately have "length (drop (length data - 32) data) = 32" by simp
  then show ?thesis by simp
qed

lemma decrypt_data_Inr_verified:
  "decrypt_data B f data ts time_info = Inr p \<Longrightarrow> verify_signature B f data = Inr ()"
  by (auto simp: decrypt_data_def split: sum.splits option.splits if_splits)

lemma decrypt_data_error:
  assumes "digest_size_ok B" and "length (encryption_key f) = 16"
    and "decrypt_data B f data ts time_info = Inl e"
  shows "e = InvalidToken"
proof (cases "verify_signature B f data")
  case (Inl e')
  then show ?thesis using assms(3) decrypt_data_bad_tag[OF Inl] by simp
next
  case (Inr u)
  have "32 \<le> length data" using verified_length[OF assms(1) Inr] .
  then have "length (take 16 (drop 9 data)) = 16" by simp
  then have "Cipher_init (encryption_key f) (take 16 (drop 9 data)) = Inr ()"
    using assms(2) by (simp add: Cipher_init_ok)
  then show ?thesis
    using assms(3) Inr
    by (auto simp: decrypt_data_def Let_def split: sum.splits option.splits if_splits)
qed

lemma Fernet_decrypt_error:
  assumes "digest_size_ok B" and "length (encryption_key f) = 16"
    and "Fernet_decrypt B f token ttl now = Inl e"
  shows "e = InvalidToken"
proof (cases "get_unverified_token_data token")
  case (Inl e')
  then show ?thesis
    using assms(3) get_unverified_token_data_Inl[OF Inl] by (simp add: Fernet_decrypt_def)
next
  case (Inr r)
  then show ?thesis
    using assms(3) decrypt_data_error[OF assms(1,2)]
    by (cases r) (auto simp: Fernet_decrypt_def Let_def)
qed

lemma Fernet_decrypt_at_time_error:
  assumes "digest_size_ok B" and "length (encryption_key f) = 16"
    and "Fernet_decrypt_at_time B f token (Some ttl) now = Inl e"
  shows "e = InvalidToken"
  using assms Fernet_decrypt_error[of B f token "Some ttl" now e]
  by (simp add: Fernet_decrypt_Some)

lemma short_data_rejected:
  assumes "digest_size_ok B" and "cbc_length_ok B" and "length (encryption_key f) = 16"
    and "length data < 57"
  shows "decrypt_data B f data ts time_info = Inl InvalidToken"
proof (cases "decrypt_data B f data ts time_info")
  case (Inl e)
  then show ?thesis using decrypt_data_error[OF assms(1,3) Inl] by simp
next
  case (Inr p)
  have ct: "drop 25 (take (length data - 32) data) = []" using assms(4) by simp
  have empty: "\<And>key iv x. aes_cbc_decrypt B key iv [] = Some x \<Longrightarrow> pkcs7_unpad x = None"
  proof -
    fix key iv x assume "aes_cbc_decrypt B key iv [] = Some x"
    then have "length x = length ([] :: bytes)"
      using assms(2) unfolding cbc_length_ok_def by blast
    then show "pkcs7_unpad x = None" by (simp add: pkcs7_unpad_Nil)
  qed
  have False
    using Inr
    by (auto simp: decrypt_data_def Let_def ct dest: empty
        split: sum.splits option.splits if_splits)
  then show ?thesis ..
qed

lemma extract_timestamp_error:
  "extract_timestamp B f token = Inl e \<Longrightarrow> e = InvalidToken"
  by (auto simp: extract_timestamp_def verify_signature_def
      dest: get_unverified_token_data_Inl split: sum.splits if_splits)

lemma parse_failure_cases:
  assumes "urlsafe_b64decode token = None \<or>
           (\<exists>data. urlsafe_b64decode token = Some data \<and>
              (data = [] \<or> hd data \<noteq> 0x80 \<or> length data < 9))"
  shows "get_unverified_token_data token = Inl InvalidToken"
  using assms
  by (auto simp: get_unverified_token_data_def struct_unpack_Q_def split: option.splits)

lemma parse_encoded:
  assumes "data = [0x80] @ be_bytes 8 T @ rest" and "0 \<le> T" and "T < 2 ^ 64"
  shows "get_unverified_token_data (urlsafe_b64encode data) = Inr (T, data)"
proof -
  have "take 8 (drop 1 data) = be_bytes 8 T"
    using assms(1) by (simp add: length_be_bytes)
  moreover have "struct_unpack_Q (be_bytes 8 T) = Inr T"
    using assms(2,3) by (simp add: struct_unpack_Q_def length_be_bytes be_int_be_bytes)
  ultimately show ?thesis
    using assms(1) by (simp add: get_unverified_token_data_def urlsafe_b64_roundtrip)
qed

lemma pkcs7_unpad_zero_block: "pkcs7_unpad (replicate 16 0) = None"
  by (simp add: pkcs7_unpad_def check_pkcs7_padding_def)

lemma verify_signature_appended:
  assumes "digest_size_ok B"
  shows "verify_signature B f (pre @ hmac_sha256 B (signing_key f) pre) = Inr ()"
proof -
  have "length (hmac_sha256 B (signing_key f) pre) = 32"
    using assms by (simp add: digest_size_ok_def)
  then show ?thesis by (simp add: verify_signature_def)
qed

lemma headless_token_props:
  assumes "digest_size_ok B" and "cbc_length_ok B" and "length (encryption_key f) = 16"
    and "0 \<le> T" and "T < 2 ^ 64"
  shows "extract_timestamp B f (headless_token B f T) = Inr T \<and>
         Fernet_decrypt B f (headless_token B f T) ttl now = Inl InvalidToken"
proof -
  define data where "data = ([0x80] @ be_bytes 8 T) @ hmac_sha256 B (signing_key f) ([0x80] @ be_bytes 8 T)"
  have tok: "headless_token B f T = urlsafe_b64encode data"
    by (simp add: headless_token_def data_def Let_def)
  have parse: "get_unverified_token_data (headless_token B f T) = Inr (T, data)"
    unfolding tok
    by (rule parse_encoded[where rest = "hmac_sha256 B (signing_key f) ([0x80] @ be_bytes 8 T)"])
       (use assms in \<open>simp_all add: data_def\<close>)
  have v: "verify_signature B f data = Inr ()"
    unfolding data_def by (rule verify_signature_appended[OF assms(1)])
  have "length data = 41"
    using assms(1) by (simp add: data_def length_be_bytes digest_size_ok_def)
  then have "length data < 57" by simp
  then have "decrypt_data B f data T ti = Inl InvalidToken" for ti
    using short_data_rejected[OF assms(1,2,3)] by blast
  then show ?thesis
    using parse v by (simp add: extract_timestamp_def Fernet_decrypt_def)
qed

lemma zero_block_token_props:
  assumes "backend_ok B" and "length (encryption_key f) = 16" and "length iv = 16"
    and "0 \<le> T" and "T < 2 ^ 64"
  shows "extract_timestamp B f (zero_block_token B f T iv) = Inr T \<and>
         Fernet_decrypt B f (zero_block_token B f T iv) ttl now = Inl InvalidToken"
proof -
  define ct where "ct = aes_cbc_encrypt B (encryption_key f) iv (replicate 16 0)"
  define mac where "mac = hmac_sha256 B (signing_key f) ([0x80] @ be_bytes 8 T @ iv @ ct)"
  define data where "data = [0x80] @ be_bytes 8 T @ iv @ ct @ mac"
  have d: "digest_size_ok B" using assms(1) by (simp add: backend_ok_def)
  have lm: "length mac = 32" using d by (simp add: mac_def digest_size_ok_def)
  have lp: "length (be_bytes 8 T) = 8" by (simp add: length_be_bytes)
  note lay = token_layout[OF lp assms(3) lm data_def]
  have tok: "zero_block_token B f T iv = urlsafe_b64encode data"
    by (simp add: zero_block_token_def data_def mac_def ct_def Let_def)
  have parse: "get_unverified_token_data (zero_block_token B f T iv) = Inr (T, data)"
    unfolding tok
    by (rule parse_encoded[where rest = "iv @ ct @ mac"])
       (use assms in \<open>simp_all add: data_def\<close>)
  have v: "verify_signature B f data = Inr ()"
    using lay(4,5) by (simp add: verify_signature_def mac_def)
  have dec: "aes_cbc_decrypt B (encryption_key f) iv ct = Some (replicate 16 0)"
    using assms(1,2,3) by (simp add: backend_ok_def cbc_inverse_ok_def ct_def)
  have nt: "decrypt_data B f data T None = Inl InvalidToken"
    using lay(6,7)
    by (simp add: decrypt_data_def v Cipher_init_ok[OF assms(2,3)] dec pkcs7_unpad_zero_block)
  have "decrypt_data B f data T ti = Inl InvalidToken" for ti
  proof (cases ti)
    case None
    then show ?thesis using nt by simp
  next
    case (Some a)
    then show ?thesis using nt by (cases a) (simp add: decrypt_data_time_info)
  qed
  then show ?thesis
    using parse v by (simp add: extract_timestamp_def Fernet_decrypt_def)
qed

subsection \<open>Iteration over the ring\<close>

lemma decrypt_loop_first:
  "i < length fs \<Longrightarrow> Fernet_decrypt B (fs ! i) msg ttl (clock i) = Inr p \<Longrightarrow>
   (\<forall>j<i. Fernet_decrypt B (fs ! j) msg ttl (clock j) = Inl InvalidToken) \<Longrightarrow>
   MultiFernet_decrypt_loop B fs msg ttl clock = Inr p"
proof (induction fs arbitrary: i clock)
  case Nil
  then show ?case by simp
next
  case (Cons f fs)
  show ?case
  proof (cases i)
    case 0
    then show ?thesis using Cons.prems by simp
  next
    case (Suc i')
    have h: "Fernet_decrypt B f msg ttl (clock 0) = Inl InvalidToken"
      using Cons.prems(3) Suc by force
    have "MultiFernet_decrypt_loop B fs msg ttl (\<lambda>i. clock (Suc i)) = Inr p"
    proof (rule Cons.IH[of i'])
      show "i' < length fs" using Cons.prems(1) Suc by simp
      show "Fernet_decrypt B (fs ! i') msg ttl (clock (Suc i')) = Inr p"
        using Cons.prems(2) Suc by simp
      show "\<forall>j<i'. Fernet_decrypt B (fs ! j) msg ttl (clock (Suc j)) = Inl InvalidToken"
      proof (intro allI impI)
        fix j assume "j < i'"
        then have "Suc j < i" using Suc by simp
        then show "Fernet_decrypt B (fs ! j) msg ttl (clock (Suc j)) = Inl InvalidToken"
          using Cons.prems(3) by force
      qed
    qed
    then show ?thesis using h by simp
  qed
qed

lemma decrypt_loop_Inr:
  "MultiFernet_decrypt_loop B fs msg ttl clock = Inr p \<Longrightarrow>
   \<exists>i<length fs. Fernet_decrypt B (fs ! i) msg ttl (clock i) = Inr p \<and>
      (\<forall>j<i. Fernet_decrypt B (fs ! j) msg ttl (clock j) = Inl InvalidToken)"
proof (induction fs arbitrary: clock)
  case Nil
  then show ?case by simp
next
  case (Cons f fs)
  show ?case
  proof (cases "Fernet_decrypt B f msg ttl (clock 0)")
    case (Inr q)
    then have "q = p" using Cons.prems by simp
    then show ?thesis using Inr by (intro exI[of _ 0]) simp
  next
    case (Inl e)
    then have e: "e = InvalidToken"
      and rest: "MultiFernet_decrypt_loop B fs msg ttl (\<lambda>i. clock (Suc i)) = Inr p"
      using Cons.prems by (auto split: if_splits)
    obtain i where i: "i < length fs"
      "Fernet_decrypt B (fs ! i) msg ttl (clock (Suc i)) = Inr p"
      "\<forall>j<i. Fernet_decrypt B (fs ! j) msg ttl (clock (Suc j)) = Inl InvalidToken"
      using Cons.IH[OF rest] by blast
    have "\<forall>j<Suc i. Fernet_decrypt B ((f # fs) ! j) msg ttl (clock j) = Inl InvalidToken"
    proof (intro allI impI)
      fix j assume "j < Suc i"
      then show "Fernet_decrypt B ((f # fs) ! j) msg ttl (clock j) = Inl InvalidToken"
        using i(3) Inl e by (cases j) auto
    qed
    then show ?thesis using i(1,2) by (intro exI[of _ "Suc i"]) simp
  qed
qed

lemma decrypt_loop_InvalidToken:
  "MultiFernet_decrypt_loop B fs msg ttl clock = Inl InvalidToken \<longleftrightarrow>
   (\<forall>i<length fs. Fernet_decrypt B (fs ! i) msg ttl (clock i) = Inl InvalidToken)"
proof (induction fs arbitrary: clock)
  case Nil
  then show ?case by simp
next
  case (Cons f fs)
  have all: "(\<forall>i<length (f # fs). Fernet_decrypt B ((f # fs) ! i) msg ttl (clock i) = Inl InvalidToken)
      \<longleftrightarrow> Fernet_decrypt B f msg ttl (clock 0) = Inl InvalidToken \<and>
          (\<forall>i<length fs. Fernet_decrypt B (fs ! i) msg ttl (clock (Suc i)) = Inl InvalidToken)"
    (is "?L \<longleftrightarrow> ?R")
  proof
    assume l: ?L
    have "Fernet_decrypt B f msg ttl (clock 0) = Inl InvalidToken" using l by force
    moreover have "Fernet_decrypt B (fs ! i) msg ttl (clock (Suc i)) = Inl InvalidToken"
      if "i < length fs" for i
      using l that by force
    ultimately show ?R by blast
  next
    assume r: ?R
    show ?L
    proof (intro allI impI)
      fix i assume "i < length (f # fs)"
      then show "Fernet_decrypt B ((f # fs) ! i) msg ttl (clock i) = Inl InvalidToken"
        using r by (cases i) auto
    qed
  qed
  show ?case
    unfolding all using Cons.IH[of "\<lambda>i. clock (Suc i)"]
    by (auto split: sum.splits)
qed

lemma decrypt_loop_error:
  assumes "digest_size_ok B" and "\<forall>f\<in>set fs. length (encryption_key f) = 16"
    and "MultiFernet_decrypt_loop B fs msg ttl clock = Inl e"
  shows "e = InvalidToken"
  using assms(2,3)
proof (induction fs arbitrary: clock)
  case Nil
  then show ?case by simp
next
  case (Cons f fs)
  show ?case
  proof (cases "Fernet_decrypt B f msg ttl (clock 0)")
    case (Inr q)
    then show ?thesis using Cons.prems by simp
  next
    case (Inl e')
    have "e' = InvalidToken"
      using Fernet_decrypt_error[OF assms(1) _ Inl] Cons.prems(1) by simp
    then show ?thesis using Cons Inl by simp
  qed
qed

lemma decrypt_at_time_loop_eq:
  "MultiFernet_decrypt_at_time_loop B fs msg (Some t) now =
   MultiFernet_decrypt_loop B fs msg (Some t) (\<lambda>_. now)"
  by (induction fs) (simp_all add: Fernet_decrypt_Some split: sum.splits)

lemma rotate_loop_eq:
  "get_unverified_token_data msg = Inr (ts, data) \<Longrightarrow>
   rotate_loop B fs data ts = MultiFernet_decrypt_loop B fs msg None clock"
  by (induction fs arbitrary: clock) (simp_all add: Fernet_decrypt_None split: sum.splits)

lemma ring_key_lengths:
  "\<forall>f\<in>set fs. \<exists>key. Fernet_init key = Inr f \<Longrightarrow>
   \<forall>f\<in>set fs. length (encryption_key f) = 16"
  using Fernet_init_key_lengths by blast

lemma ring_decrypt_cases:
  assumes d: "digest_size_ok B" and wf: "\<forall>f\<in>set fs. length (encryption_key f) = 16"
  shows "(MultiFernet_decrypt_loop B fs msg ttl clock = Inr p \<longleftrightarrow>
            (\<exists>i<length fs. Fernet_decrypt B (fs ! i) msg ttl (clock i) = Inr p \<and>
               (\<forall>j<i. Fernet_decrypt B (fs ! j) msg ttl (clock j) = Inl InvalidToken)))"
    and "((\<exists>e. MultiFernet_decrypt_loop B fs msg ttl clock = Inl e) \<longleftrightarrow>
            (\<forall>i<length fs. \<exists>e. Fernet_decrypt B (fs ! i) msg ttl (clock i) = Inl e))"
    and "MultiFernet_decrypt_loop B fs msg ttl clock = Inl e \<Longrightarrow> e = InvalidToken"
proof -
  show "MultiFernet_decrypt_loop B fs msg ttl clock = Inr p \<longleftrightarrow>
            (\<exists>i<length fs. Fernet_decrypt B (fs ! i) msg ttl (clock i) = Inr p \<and>
               (\<forall>j<i. Fernet_decrypt B (fs ! j) msg ttl (clock j) = Inl InvalidToken))"
    using decrypt_loop_first[of _ fs B msg ttl clock p] decrypt_loop_Inr[of B fs msg ttl clock p]
    by blast
  show e: "MultiFernet_decrypt_loop B fs msg ttl clock = Inl e \<Longrightarrow> e = InvalidToken" for e
    using decrypt_loop_error[OF d wf] .
  have eng: "(\<exists>e. Fernet_decrypt B (fs ! i) msg ttl (clock i) = Inl e) \<longleftrightarrow>
      Fernet_decrypt B (fs ! i) msg ttl (clock i) = Inl InvalidToken" if "i < length fs" for i
    using Fernet_decrypt_error[OF d, of "fs ! i" msg ttl "clock i"] wf that by auto
  have "(\<exists>e. MultiFernet_decrypt_loop B fs msg ttl clock = Inl e) \<longleftrightarrow>
      MultiFernet_decrypt_loop B fs msg ttl clock = Inl InvalidToken"
    using e by auto
  also have "\<dots> \<longleftrightarrow> (\<forall>i<length fs. Fernet_decrypt B (fs ! i) msg ttl (clock i) = Inl InvalidToken)"
    by (rule decrypt_loop_InvalidToken)
  also have "\<dots> \<longleftrightarrow> (\<forall>i<length fs. \<exists>e. Fernet_decrypt B (fs ! i) msg ttl (clock i) = Inl e)"
    using eng by auto
  finally show "(\<exists>e. MultiFernet_decrypt_loop B fs msg ttl clock = Inl e) \<longleftrightarrow>
            (\<forall>i<length fs. \<exists>e. Fernet_decrypt B (fs ! i) msg ttl (clock i) = Inl e)" .
qed

subsection \<open>The executable backend and its tokens\<close>

lemma test_backend_ok: "backend_ok test_backend"
  by (simp add: backend_ok_def digest_size_ok_def cbc_length_ok_def cbc_inverse_ok_def
      test_backend_def test_hmac_def o_def min_def)

lemma test_digest_size_ok: "digest_size_ok test_backend"
  using test_backend_ok by (simp add: backend_ok_def)

lemma test_cbc_length_ok: "cbc_length_ok test_backend"
  using test_backend_ok by (simp add: backend_ok_def)

lemma Fernet_init_key_a: "Fernet_init key_a = Inr fernet_a"
  by (simp add: Fernet_init_def key_a_def fernet_a_def urlsafe_b64_roundtrip)

lemma Fernet_init_key_b: "Fernet_init key_b = Inr fernet_b"
  by (simp add: Fernet_init_def key_b_def fernet_b_def urlsafe_b64_roundtrip)

lemma length_iv_a: "length iv_a = 16"
  by (simp add: iv_a_def)

lemma token_a_props:
  "Fernet_encrypt_at_time test_backend fernet_a hello 1000 iv_a = Inr token_a \<and>
   (\<exists>data. get_unverified_token_data token_a = Inr (1000, data) \<and>
      verify_signature test_backend fernet_a data = Inr () \<and>
      decrypt_data test_backend fernet_a data 1000 None = Inr hello)"
proof -
  have k: "length (encryption_key fernet_a) = 16" by (simp add: fernet_a_def)
  obtain tok data where "encrypt_from_parts test_backend fernet_a hello 1000 iv_a = Inr tok"
    "get_unverified_token_data tok = Inr (1000, data)"
    "verify_signature test_backend fernet_a data = Inr ()"
    "decrypt_data test_backend fernet_a data 1000 None = Inr hello"
    using encrypt_then_parse[OF test_backend_ok k length_iv_a, of 1000 hello] by auto
  then show ?thesis by (auto simp: token_a_def Fernet_encrypt_at_time_def)
qed

lemma bad_tag_token_parse:
  "get_unverified_token_data bad_tag_token = Inr (1000, bad_tag_data)"
  unfolding bad_tag_token_def
  by (rule parse_encoded[where rest = "iv_a @ replicate 16 0 @ replicate 32 0"])
     (simp_all add: bad_tag_data_def)

lemma bad_tag_data_mismatch:
  "drop (length bad_tag_data - 32) bad_tag_data \<noteq>
   hmac_sha256 test_backend (signing_key fernet_a) (take (length bad_tag_data - 32) bad_tag_data)"
proof -
  have "length bad_tag_data = 73"
    by (simp add: bad_tag_data_def length_be_bytes iv_a_def)
  then have d: "drop (length bad_tag_data - 32) bad_tag_data = replicate 32 0"
    by (simp add: bad_tag_data_def length_be_bytes iv_a_def)
  have "last (hmac_sha256 test_backend (signing_key fernet_a) x) = 1" for x
    by (simp add: test_backend_def test_hmac_def fernet_a_def)
  moreover have "last (replicate 32 (0::byte)) = 0" by simp
  ultimately show ?thesis unfolding d by (metis zero_neq_one)
qed

lemma length_short_data: "length short_data = 41"
  by (simp add: short_data_def length_be_bytes test_hmac_def fernet_a_def)

lemma short_token_decode: "urlsafe_b64decode short_token = Some short_data"
  by (simp add: short_token_def urlsafe_b64_roundtrip)

lemma token_b_props:
  "Fernet_encrypt_at_time test_backend fernet_b hello 1000 iv_a = Inr token_b \<and>
   (\<exists>data. get_unverified_token_data token_b = Inr (1000, data) \<and>
      verify_signature test_backend fernet_b data = Inr () \<and>
      decrypt_data test_backend fernet_b data 1000 None = Inr hello)"
proof -
  have k: "length (encryption_key fernet_b) = 16" by (simp add: fernet_b_def)
  obtain tok data where "encrypt_from_parts test_backend fernet_b hello 1000 iv_a = Inr tok"
    "get_unverified_token_data tok = Inr (1000, data)"
    "verify_signature test_backend fernet_b data = Inr ()"
    "decrypt_data test_backend fernet_b data 1000 None = Inr hello"
    using encrypt_then_parse[OF test_backend_ok k length_iv_a, of 1000 hello] by auto
  then show ?thesis by (auto simp: token_b_def Fernet_encrypt_at_time_def)
qed

lemma test_hmac_keys_differ:
  "hmac_sha256 test_backend (signing_key fernet_a) x \<noteq>
   hmac_sha256 test_backend (signing_key fernet_b) y"
proof -
  have "last (hmac_sha256 test_backend (signing_key fernet_a) x) = 1"
    by (simp add: test_backend_def test_hmac_def fernet_a_def)
  moreover have "last (hmac_sha256 test_backend (signing_key fernet_b) y) = 3"
    by (simp add: test_backend_def test_hmac_def fernet_b_def)
  ultimately show ?thesis by auto
qed

lemma ring_ab_rejects_bad_tag_token:
  assumes "f = fernet_a \<or> f = fernet_b"
  shows "Fernet_decrypt test_backend f bad_tag_token ttl now = Inl InvalidToken"
proof -
  have nz: "last (hmac_sha256 test_backend (signing_key f) x) \<noteq> 0" for x
    using assms by (auto simp: test_backend_def test_hmac_def fernet_a_def fernet_b_def)
  have d: "drop (length bad_tag_data - 32) bad_tag_data = replicate 32 0"
    by (simp add: bad_tag_data_def length_be_bytes iv_a_def)
  have "last (replicate 32 (0::byte)) = 0" by simp
  then have "hmac_sha256 test_backend (signing_key f) x \<noteq> replicate 32 0" for x
    using nz[of x] by metis
  then have "verify_signature test_backend f bad_tag_data = Inl InvalidToken"
    by (simp add: verify_signature_def d)
  then have "decrypt_data test_backend f bad_tag_data 1000 ti = Inl InvalidToken" for ti
    by (rule decrypt_data_bad_tag)
  then show ?thesis using bad_tag_token_parse by (simp add: Fernet_decrypt_def)
qed

lemma fernet_a_rejects_token_b:
  "Fernet_decrypt test_backend fernet_a token_b ttl now = Inl InvalidToken"
proof -
  obtain data where parse: "get_unverified_token_data token_b = Inr (1000, data)"
    and v: "verify_signature test_backend fernet_b data = Inr ()"
    using token_b_props by blast
  have "verify_signature test_backend fernet_a data = Inl InvalidToken"
    using v test_hmac_keys_differ[of "take (length data - 32) data" "take (length data - 32) data"]
    by (simp add: verify_signature_def split: if_splits)
  then have "decrypt_data test_backend fernet_a data 1000 ti = Inl InvalidToken" for ti
    by (rule decrypt_data_bad_tag)
  then show ?thesis using parse by (simp add: Fernet_decrypt_def)
qed

lemma ring_ab_init: "MultiFernet_init [fernet_a, fernet_b] = Inr ring_ab"
  by (simp add: MultiFernet_init_def ring_ab_def)

lemma ring_ab_engines: "\<forall>f\<in>set [fernet_a, fernet_b]. \<exists>key. Fernet_init key = Inr f"
  using Fernet_init_key_a Fernet_init_key_b by auto

section \<open>The specification's claims\<close>

subsection \<open>Round trip\<close>

text \<open>
  Claim C1. For every payload \<open>P\<close>, every 16-byte IV and every time \<open>T\<close> in
  \<open>[0, 2^64 - 1]\<close>, an engine built from a master key encrypts \<open>P\<close> at time \<open>T\<close>
  to a token that the same engine decrypts to exactly \<open>P\<close>: with no ttl at any
  clock reading, and with a ttl whenever the token is neither expired
  (\<open>T + ttl < now\<close>) nor future-dated (\<open>now + 60 < T\<close>).
\<close>

theorem fernet_round_trip:
  assumes "backend_ok B" and "Fernet_init key = Inr f" and "length iv = 16"
    and "0 \<le> T" and "T < 2 ^ 64"
  shows "\<exists>tok. Fernet_encrypt_at_time B f P T iv = Inr tok \<and>
           Fernet_decrypt B f tok None now = Inr P \<and>
           (\<forall>ttl. \<not> T + ttl < now \<and> \<not> now + 60 < T \<longrightarrow>
              Fernet_decrypt B f tok (Some ttl) now = Inr P \<and>
              Fernet_decrypt_at_time B f tok (Some ttl) now = Inr P)"
proof -
  have k: "length (encryption_key f) = 16"
    using Fernet_init_key_lengths[OF assms(2)] by simp
  obtain tok data where enc: "encrypt_from_parts B f P T iv = Inr tok"
    and parse: "get_unverified_token_data tok = Inr (T, data)"
    and dec: "decrypt_data B f data T None = Inr P"
    using encrypt_then_parse[OF assms(1) k assms(3,4,5), of P] by blast
  have "Fernet_decrypt B f tok None now = Inr P"
    by (simp add: Fernet_decrypt_None parse dec)
  moreover have "\<forall>ttl. \<not> T + ttl < now \<and> \<not> now + 60 < T \<longrightarrow>
      Fernet_decrypt_at_time B f tok (Some ttl) now = Inr P"
    by (simp add: Fernet_decrypt_at_time_parsed[OF parse] dec)
  ultimately show ?thesis
    using enc by (auto simp: Fernet_encrypt_at_time_def Fernet_decrypt_Some)
qed

theorem fernet_round_trip_witness:
  "backend_ok test_backend \<and> Fernet_init key_a = Inr fernet_a \<and> length iv_a = 16 \<and>
   (\<exists>tok. Fernet_encrypt_at_time test_backend fernet_a hello 1000 iv_a = Inr tok \<and>
      Fernet_decrypt test_backend fernet_a tok None 5000 = Inr hello \<and>
      Fernet_decrypt test_backend fernet_a tok (Some 10) 1005 = Inr hello \<and>
      Fernet_decrypt_at_time test_backend fernet_a tok (Some 10) 1005 = Inr hello)"
proof -
  have iv: "length iv_a = 16" by (simp add: iv_a_def)
  obtain tok where t: "Fernet_encrypt_at_time test_backend fernet_a hello 1000 iv_a = Inr tok"
    and n: "\<And>now. Fernet_decrypt test_backend fernet_a tok None now = Inr hello"
    and s: "Fernet_decrypt test_backend fernet_a tok (Some 10) 1005 = Inr hello \<and>
      Fernet_decrypt_at_time test_backend fernet_a tok (Some 10) 1005 = Inr hello"
  proof -
    obtain tok where "Fernet_encrypt_at_time test_backend fernet_a hello 1000 iv_a = Inr tok \<and>
           Fernet_decrypt test_backend fernet_a tok None 1005 = Inr hello \<and>
           (\<forall>ttl. \<not> 1000 + ttl < 1005 \<and> \<not> 1005 + 60 < (1000::int) \<longrightarrow>
              Fernet_decrypt test_backend fernet_a tok (Some ttl) 1005 = Inr hello \<and>
              Fernet_decrypt_at_time test_backend fernet_a tok (Some ttl) 1005 = Inr hello)"
      using fernet_round_trip[OF test_backend_ok Fernet_init_key_a iv, of 1000 hello 1005] by auto
    then show ?thesis using that by (auto simp: Fernet_decrypt_None)
  qed
  show ?thesis using test_backend_ok Fernet_init_key_a iv t n s by blast
qed

subsection \<open>The tag is always verified\<close>

text \<open>
  Claim C2. With a 32-byte MAC, \<open>decrypt\<close> returns a plaintext only for a token
  that decodes to at least 32 bytes whose trailing 32 bytes are the MAC, under the
  signing key, of the bytes before them. For every token whose tag differs from that
  MAC, \<open>decrypt\<close> raises \<^verbatim>\<open>InvalidToken\<close>, whatever the ttl and the clock are, and
  \<^verbatim>\<open>_decrypt_data\<close> does so for every timestamp and every \<open>time_info\<close>.
\<close>

theorem decrypt_requires_valid_tag:
  assumes "digest_size_ok B"
  shows "(\<forall>p. Fernet_decrypt B f token ttl now = Inr p \<longrightarrow>
            (\<exists>data. urlsafe_b64decode token = Some data \<and> 32 \<le> length data \<and>
               drop (length data - 32) data =
                 hmac_sha256 B (signing_key f) (take (length data - 32) data))) \<and>
         (\<forall>data. urlsafe_b64decode token = Some data \<and>
               drop (length data - 32) data \<noteq>
                 hmac_sha256 B (signing_key f) (take (length data - 32) data) \<longrightarrow>
            Fernet_decrypt B f token ttl now = Inl InvalidToken \<and>
            (\<forall>ts time_info. decrypt_data B f data ts time_info = Inl InvalidToken))"
proof (intro conjI allI impI)
  fix p assume ok: "Fernet_decrypt B f token ttl now = Inr p"
  then obtain ts data where parse: "get_unverified_token_data token = Inr (ts, data)"
    and dec: "\<exists>ti. decrypt_data B f data ts ti = Inr p"
    by (auto simp: Fernet_decrypt_def Let_def split: sum.splits)
  from dec have v: "verify_signature B f data = Inr ()"
    using decrypt_data_Inr_verified by blast
  have "urlsafe_b64decode token = Some data"
    using get_unverified_token_data_Inr[OF parse] by simp
  moreover have "32 \<le> length data" using verified_length[OF assms v] .
  moreover have "drop (length data - 32) data =
      hmac_sha256 B (signing_key f) (take (length data - 32) data)"
    using v by (simp add: verify_signature_Inr)
  ultimately show "\<exists>data. urlsafe_b64decode token = Some data \<and> 32 \<le> length data \<and>
      drop (length data - 32) data = hmac_sha256 B (signing_key f) (take (length data - 32) data)"
    by blast
next
  fix data
  assume a: "urlsafe_b64decode token = Some data \<and>
     drop (length data - 32) data \<noteq> hmac_sha256 B (signing_key f) (take (length data - 32) data)"
  then have v: "verify_signature B f data = Inl InvalidToken"
    by (auto simp: verify_signature_def)
  show "decrypt_data B f data ts time_info = Inl InvalidToken" for ts time_info
    using decrypt_data_bad_tag[OF v] by simp
  show "Fernet_decrypt B f token ttl now = Inl InvalidToken"
  proof (cases "get_unverified_token_data token")
    case (Inl e)
    then show ?thesis
      using get_unverified_token_data_Inl[OF Inl] by (simp add: Fernet_decrypt_def)
  next
    case (Inr r)
    obtain ts d where r: "r = (ts, d)" by (cases r)
    have "d = data" using get_unverified_token_data_Inr[of token ts d] Inr r a by simp
    then show ?thesis
      using Inr r decrypt_data_bad_tag[OF v] by (simp add: Fernet_decrypt_def)
  qed
qed

theorem decrypt_requires_valid_tag_witness:
  "digest_size_ok test_backend \<and>
   Fernet_decrypt test_backend fernet_a token_a None 0 = Inr hello \<and>
   (\<exists>data. urlsafe_b64decode token_a = Some data \<and> 32 \<le> length data \<and>
      drop (length data - 32) data =
        hmac_sha256 test_backend (signing_key fernet_a) (take (length data - 32) data)) \<and>
   urlsafe_b64decode bad_tag_token = Some bad_tag_data \<and>
   drop (length bad_tag_data - 32) bad_tag_data \<noteq>
     hmac_sha256 test_backend (signing_key fernet_a) (take (length bad_tag_data - 32) bad_tag_data) \<and>
   Fernet_decrypt test_backend fernet_a bad_tag_token None 0 = Inl InvalidToken \<and>
   Fernet_decrypt test_backend fernet_a bad_tag_token (Some 10) 1005 = Inl InvalidToken"
proof -
  have good: "Fernet_decrypt test_backend fernet_a token_a None 0 = Inr hello"
    using token_a_props by (auto simp: Fernet_decrypt_None)
  have dec: "urlsafe_b64decode bad_tag_token = Some bad_tag_data"
    by (simp add: bad_tag_token_def urlsafe_b64_roundtrip)
  note t1 = decrypt_requires_valid_tag[OF test_digest_size_ok, of fernet_a token_a None 0]
  note t2 = decrypt_requires_valid_tag[OF test_digest_size_ok, of fernet_a bad_tag_token None 0]
  note t3 = decrypt_requires_valid_tag[OF test_digest_size_ok, of fernet_a bad_tag_token "Some 10" 1005]
  show ?thesis
    using test_digest_size_ok good dec bad_tag_data_mismatch t1 t2 t3 by blast
qed

subsection \<open>Expiry and clock skew\<close>

text \<open>
  Claim C3. Take a token that parses to timestamp \<open>ts\<close> and that decrypts when no
  ttl is given. With the ttl policy \<open>(ttl, now)\<close> it is rejected exactly when
  \<open>ts + ttl < now\<close> (expired) or \<open>now + 60 < ts\<close> (future-dated); the rejection is
  \<^verbatim>\<open>InvalidToken\<close> and is made for every engine and every token body with that
  timestamp; otherwise the plaintext is returned. At the boundaries: with
  \<open>ttl = 60\<close> the token is accepted at \<open>now = ts + 60\<close> and rejected at
  \<open>now = ts + 61\<close>; a timestamp of \<open>now + 60\<close> is accepted (for a ttl that is not
  negative) and a timestamp of \<open>now + 61\<close> is rejected.
\<close>

theorem ttl_policy:
  assumes "get_unverified_token_data token = Inr (ts, data)"
    and "decrypt_data B f data ts None = Inr p"
  shows "((\<exists>e. Fernet_decrypt_at_time B f token (Some ttl) now = Inl e) \<longleftrightarrow>
            ts + ttl < now \<or> now + 60 < ts) \<and>
         ((\<exists>e. Fernet_decrypt B f token (Some ttl) now = Inl e) \<longleftrightarrow>
            ts + ttl < now \<or> now + 60 < ts) \<and>
         (ts + ttl < now \<or> now + 60 < ts \<longrightarrow>
            Fernet_decrypt_at_time B f token (Some ttl) now = Inl InvalidToken \<and>
            Fernet_decrypt B f token (Some ttl) now = Inl InvalidToken \<and>
            (\<forall>f' data'. decrypt_data B f' data' ts (Some (ttl, now)) = Inl InvalidToken)) \<and>
         (\<not> (ts + ttl < now \<or> now + 60 < ts) \<longrightarrow>
            Fernet_decrypt_at_time B f token (Some ttl) now = Inr p \<and>
            Fernet_decrypt B f token (Some ttl) now = Inr p) \<and>
         Fernet_decrypt_at_time B f token (Some 60) (ts + 60) = Inr p \<and>
         Fernet_decrypt_at_time B f token (Some 60) (ts + 61) = Inl InvalidToken \<and>
         (0 \<le> ttl \<and> ts = now + 60 \<longrightarrow>
            Fernet_decrypt_at_time B f token (Some ttl) now = Inr p) \<and>
         (ts = now + 61 \<longrightarrow>
            Fernet_decrypt_at_time B f token (Some ttl) now = Inl InvalidToken)"
proof -
  have at: "Fernet_decrypt_at_time B f token (Some t) n =
      (if ts + t < n \<or> n + 60 < ts then Inl InvalidToken else Inr p)" for t n
    by (simp add: Fernet_decrypt_at_time_parsed[OF assms(1)] assms(2))
  have gen: "ts + ttl < now \<or> now + 60 < ts \<Longrightarrow>
      decrypt_data B f' data' ts (Some (ttl, now)) = Inl InvalidToken" for f' data'
    by (simp add: decrypt_data_time_info)
  show ?thesis
    unfolding Fernet_decrypt_Some at using gen by auto
qed

theorem ttl_policy_witness:
  "(\<exists>data. get_unverified_token_data token_a = Inr (1000, data) \<and>
      decrypt_data test_backend fernet_a data 1000 None = Inr hello) \<and>
   Fernet_decrypt_at_time test_backend fernet_a token_a (Some 60) 1060 = Inr hello \<and>
   Fernet_decrypt_at_time test_backend fernet_a token_a (Some 60) 1061 = Inl InvalidToken \<and>
   Fernet_decrypt_at_time test_backend fernet_a token_a (Some 10) 940 = Inr hello \<and>
   Fernet_decrypt_at_time test_backend fernet_a token_a (Some 10) 939 = Inl InvalidToken \<and>
   Fernet_decrypt test_backend fernet_a token_a (Some 10) 1005 = Inr hello \<and>
   Fernet_decrypt test_backend fernet_a token_a (Some 10) 1011 = Inl InvalidToken"
proof -
  obtain data where parse: "get_unverified_token_data token_a = Inr (1000, data)"
    and dec: "decrypt_data test_backend fernet_a data 1000 None = Inr hello"
    using token_a_props by blast
  note t = ttl_policy[OF parse dec]
  have "Fernet_decrypt_at_time test_backend fernet_a token_a (Some 60) 1060 = Inr hello"
       "Fernet_decrypt_at_time test_backend fernet_a token_a (Some 60) 1061 = Inl InvalidToken"
    using t[of 60 0] by simp_all
  moreover have "Fernet_decrypt_at_time test_backend fernet_a token_a (Some 10) 940 = Inr hello"
    using t[of 10 940] by simp
  moreover have "Fernet_decrypt_at_time test_backend fernet_a token_a (Some 10) 939 = Inl InvalidToken"
    using t[of 10 939] by simp
  moreover have "Fernet_decrypt test_backend fernet_a token_a (Some 10) 1005 = Inr hello"
    using t[of 10 1005] by simp
  moreover have "Fernet_decrypt test_backend fernet_a token_a (Some 10) 1011 = Inl InvalidToken"
    using t[of 10 1011] by simp
  ultimately show ?thesis using parse dec by blast
qed

subsection \<open>Short tokens\<close>

text \<open>
  Claim C4. A token whose base64url decoding has fewer than 57 bytes (1 version
  byte, 8 timestamp bytes, 16 IV bytes, 32 tag bytes) is never decrypted:
  \<open>decrypt\<close> and \<open>decrypt_at_time\<close> raise \<^verbatim>\<open>InvalidToken\<close> for every engine built
  by the constructor, every ttl and every clock reading. The module has no length
  check of its own: a body this short has no ciphertext, and the unpadder rejects
  an empty plaintext.
\<close>

theorem short_token_rejected:
  assumes "digest_size_ok B" and "cbc_length_ok B" and "Fernet_init key = Inr f"
    and "urlsafe_b64decode token = Some data" and "length data < 57"
  shows "Fernet_decrypt B f token ttl now = Inl InvalidToken \<and>
         Fernet_decrypt_at_time B f token (Some t) now = Inl InvalidToken"
proof -
  have k: "length (encryption_key f) = 16"
    using Fernet_init_key_lengths[OF assms(3)] by simp
  have d: "decrypt_data B f data ts ti = Inl InvalidToken" for ts ti
    using short_data_rejected[OF assms(1,2) k assms(5)] .
  have "Fernet_decrypt B f token ttl' now = Inl InvalidToken" for ttl'
  proof (cases "get_unverified_token_data token")
    case (Inl e)
    then show ?thesis
      using get_unverified_token_data_Inl[OF Inl] by (simp add: Fernet_decrypt_def)
  next
    case (Inr r)
    obtain ts d' where r: "r = (ts, d')" by (cases r)
    have "d' = data" using get_unverified_token_data_Inr[of token ts d'] Inr r assms(4) by simp
    then show ?thesis using Inr r d by (simp add: Fernet_decrypt_def)
  qed
  then show ?thesis by (simp add: Fernet_decrypt_Some[symmetric])
qed

theorem short_token_rejected_witness:
  "digest_size_ok test_backend \<and> cbc_length_ok test_backend \<and>
   Fernet_init key_a = Inr fernet_a \<and>
   urlsafe_b64decode short_token = Some short_data \<and> length short_data < 57 \<and>
   Fernet_decrypt test_backend fernet_a short_token None 0 = Inl InvalidToken \<and>
   Fernet_decrypt_at_time test_backend fernet_a short_token (Some 10) 1005 = Inl InvalidToken"
proof -
  have l: "length short_data < 57" by (simp add: length_short_data)
  show ?thesis
    using short_token_rejected[OF test_digest_size_ok test_cbc_length_ok Fernet_init_key_a
        short_token_decode l, of None 0 10]
      short_token_rejected[OF test_digest_size_ok test_cbc_length_ok Fernet_init_key_a
        short_token_decode l, of None 1005 10]
      test_digest_size_ok test_cbc_length_ok Fernet_init_key_a short_token_decode l
    by simp
qed

subsection \<open>One opaque error\<close>

text \<open>
  Claim C5. For every token and every engine built by the constructor, \<open>decrypt\<close>
  and \<open>decrypt_at_time\<close> either return a plaintext or raise exactly
  \<^verbatim>\<open>InvalidToken\<close>. Each cause of failure ends there: malformed base64, an empty
  body or a wrong version byte, a body too short to hold the timestamp, a tag
  mismatch, a ttl or clock-skew violation, a ciphertext that the cipher rejects and a
  plaintext with invalid padding. The \<^verbatim>\<open>ValueError\<close> of the cipher constructor (an
  IV that is not 16 bytes long) cannot be reached, since a verified body has at
  least 32 bytes.
\<close>

theorem single_error_kind:
  assumes "digest_size_ok B" and "Fernet_init key = Inr f"
  shows "((\<exists>p. Fernet_decrypt B f token ttl now = Inr p) \<or>
            Fernet_decrypt B f token ttl now = Inl InvalidToken) \<and>
         ((\<exists>p. Fernet_decrypt_at_time B f token (Some t) now = Inr p) \<or>
            Fernet_decrypt_at_time B f token (Some t) now = Inl InvalidToken) \<and>
         (urlsafe_b64decode token = None \<longrightarrow>
            Fernet_decrypt B f token ttl now = Inl InvalidToken) \<and>
         (\<forall>data. urlsafe_b64decode token = Some data \<and>
              (data = [] \<or> hd data \<noteq> 0x80 \<or> length data < 9) \<longrightarrow>
            Fernet_decrypt B f token ttl now = Inl InvalidToken) \<and>
         (\<forall>ts data. get_unverified_token_data token = Inr (ts, data) \<and>
              (verify_signature B f data \<noteq> Inr () \<or>
               (\<exists>ttl'. ttl = Some ttl' \<and> (ts + ttl' < now \<or> now + 60 < ts)) \<or>
               (case aes_cbc_decrypt B (encryption_key f) (take 16 (drop 9 data))
                       (drop 25 (take (length data - 32) data)) of
                  None \<Rightarrow> True
                | Some plaintext_padded \<Rightarrow> pkcs7_unpad plaintext_padded = None)) \<longrightarrow>
            Fernet_decrypt B f token ttl now = Inl InvalidToken)"
proof -
  have k: "length (encryption_key f) = 16"
    using Fernet_init_key_lengths[OF assms(2)] by simp
  have err: "Fernet_decrypt B f token ttl' now = Inl e \<Longrightarrow> e = InvalidToken" for ttl' e
    using Fernet_decrypt_error[OF assms(1) k] .
  have total: "(\<exists>p. Fernet_decrypt B f token ttl' now = Inr p) \<or>
      Fernet_decrypt B f token ttl' now = Inl InvalidToken" for ttl'
    using err[of ttl'] by (cases "Fernet_decrypt B f token ttl' now") auto
  have pf: "urlsafe_b64decode token = None \<or>
           (\<exists>data. urlsafe_b64decode token = Some data \<and>
              (data = [] \<or> hd data \<noteq> 0x80 \<or> length data < 9)) \<Longrightarrow>
        Fernet_decrypt B f token ttl now = Inl InvalidToken"
    using parse_failure_cases[of token] by (simp add: Fernet_decrypt_def)
  have late: "Fernet_decrypt B f token ttl now = Inl InvalidToken"
    if parse: "get_unverified_token_data token = Inr (ts, data)"
      and bad: "verify_signature B f data \<noteq> Inr () \<or>
               (\<exists>ttl'. ttl = Some ttl' \<and> (ts + ttl' < now \<or> now + 60 < ts)) \<or>
               (case aes_cbc_decrypt B (encryption_key f) (take 16 (drop 9 data))
                       (drop 25 (take (length data - 32) data)) of
                  None \<Rightarrow> True
                | Some plaintext_padded \<Rightarrow> pkcs7_unpad plaintext_padded = None)"
    for ts data
  proof (cases "Fernet_decrypt B f token ttl now")
    case (Inl e)
    then show ?thesis using err[OF Inl] by simp
  next
    case (Inr p)
    then have False
      using parse bad
      by (auto simp: Fernet_decrypt_def decrypt_data_def Let_def MAX_CLOCK_SKEW_def
          split: sum.splits option.splits if_splits)
    then show ?thesis ..
  qed
  show ?thesis
    using total[of ttl] total[of "Some t"] pf late
    unfolding Fernet_decrypt_Some[symmetric] by blast
qed

theorem single_error_kind_witness:
  "digest_size_ok test_backend \<and> Fernet_init key_a = Inr fernet_a \<and>
   Fernet_decrypt test_backend fernet_a token_a None 0 = Inr hello \<and>
   urlsafe_b64decode malformed_token = None \<and>
   Fernet_decrypt test_backend fernet_a malformed_token None 0 = Inl InvalidToken \<and>
   (\<exists>data. urlsafe_b64decode wrong_version_token = Some data \<and> hd data \<noteq> 0x80) \<and>
   Fernet_decrypt test_backend fernet_a wrong_version_token None 0 = Inl InvalidToken \<and>
   get_unverified_token_data bad_tag_token = Inr (1000, bad_tag_data) \<and>
   verify_signature test_backend fernet_a bad_tag_data \<noteq> Inr () \<and>
   Fernet_decrypt test_backend fernet_a bad_tag_token None 0 = Inl InvalidToken \<and>
   Fernet_decrypt test_backend fernet_a token_a (Some 10) 1011 = Inl InvalidToken"
proof -
  note t = single_error_kind[OF test_digest_size_ok Fernet_init_key_a]
  have good: "Fernet_decrypt test_backend fernet_a token_a None 0 = Inr hello"
    using token_a_props by (auto simp: Fernet_decrypt_None)
  have m: "urlsafe_b64decode malformed_token = None"
    by (simp add: malformed_token_def urlsafe_b64decode_def a2b_base64_def
        urlsafe_decode_translation_def table_a2b_base64_def)
  have w: "urlsafe_b64decode wrong_version_token = Some ([0x81] @ be_bytes 8 1000 @ replicate 48 0)"
    by (simp add: wrong_version_token_def urlsafe_b64_roundtrip)
  have w2: "hd ([0x81] @ be_bytes 8 1000 @ replicate 48 0) \<noteq> (0x80 :: byte)" by simp
  have v: "verify_signature test_backend fernet_a bad_tag_data \<noteq> Inr ()"
    using bad_tag_data_mismatch by (auto simp: verify_signature_def)
  obtain data where parse: "get_unverified_token_data token_a = Inr (1000, data)"
    using token_a_props by blast
  have "Fernet_decrypt test_backend fernet_a malformed_token None 0 = Inl InvalidToken"
    using t[of malformed_token None 0] m by simp
  moreover have "Fernet_decrypt test_backend fernet_a wrong_version_token None 0 = Inl InvalidToken"
    using t[of wrong_version_token None 0] w w2 by simp
  moreover have "Fernet_decrypt test_backend fernet_a bad_tag_token None 0 = Inl InvalidToken"
    using t[of bad_tag_token None 0] bad_tag_token_parse v by blast
  moreover have "Fernet_decrypt test_backend fernet_a token_a (Some 10) 1011 = Inl InvalidToken"
  proof -
    have "\<exists>ttl'. Some (10::int) = Some ttl' \<and> (1000 + ttl' < 1011 \<or> 1011 + 60 < (1000::int))"
      by simp
    then show ?thesis using t[of token_a "Some 10" 1011] parse by blast
  qed
  ultimately show ?thesis
    using test_digest_size_ok Fernet_init_key_a good m w w2 bad_tag_token_parse v by blast
qed

subsection \<open>Rotation\<close>

text \<open>
  Claim C6. If some engine of the ring decrypts \<open>tok\<close> (no ttl), then \<open>rotate\<close>
  returns a token whose timestamp, read by the first engine with
  \<open>extract_timestamp\<close>, is the timestamp that every engine able to decrypt \<open>tok\<close>
  reads from \<open>tok\<close>, and which the first engine decrypts to the plaintext that the
  ring decrypts \<open>tok\<close> to. If no engine decrypts \<open>tok\<close>, \<open>rotate\<close> raises
  \<^verbatim>\<open>InvalidToken\<close>.
\<close>

theorem rotate_preserves_timestamp:
  assumes "backend_ok B" and "\<forall>f\<in>set fs. \<exists>key. Fernet_init key = Inr f"
    and "MultiFernet_init fs = Inr m" and "length iv = 16"
  shows "((\<exists>f\<in>set fs. \<exists>q. Fernet_decrypt B f tok None now = Inr q) \<longrightarrow>
           (\<exists>tok' ts p. MultiFernet_rotate B m tok iv = Inr tok' \<and>
              MultiFernet_decrypt B m tok None clock = Inr p \<and>
              Fernet_decrypt B (hd fs) tok' None now = Inr p \<and>
              extract_timestamp B (hd fs) tok' = Inr ts \<and>
              (\<forall>f\<in>set fs. (\<exists>q. Fernet_decrypt B f tok None now = Inr q) \<longrightarrow>
                 extract_timestamp B f tok = Inr ts))) \<and>
         (\<not> (\<exists>f\<in>set fs. \<exists>q. Fernet_decrypt B f tok None now = Inr q) \<longrightarrow>
           MultiFernet_rotate B m tok iv = Inl InvalidToken)"
proof -
  have m: "fernets m = fs" and ne: "fs \<noteq> []"
    using assms(3) by (auto simp: MultiFernet_init_def split: if_splits)
  have d: "digest_size_ok B" using assms(1) by (simp add: backend_ok_def)
  have wf: "\<forall>f\<in>set fs. length (encryption_key f) = 16"
    using ring_key_lengths[OF assms(2)] .
  obtain f0 fs' where fs: "fs = f0 # fs'" using ne by (cases fs) auto
  have k0: "length (encryption_key f0) = 16" using wf fs by simp
  have nodep: "Fernet_decrypt B f tok None c = Fernet_decrypt B f tok None c'" for f c c'
    by (simp add: Fernet_decrypt_None)
  show ?thesis
  proof (cases "get_unverified_token_data tok")
    case (Inl e)
    have e: "e = InvalidToken" using get_unverified_token_data_Inl[OF Inl] .
    have "Fernet_decrypt B f tok None now = Inl InvalidToken" for f
      using Inl e by (simp add: Fernet_decrypt_def)
    moreover have "MultiFernet_rotate B m tok iv = Inl InvalidToken"
      using Inl e by (simp add: MultiFernet_rotate_def)
    ultimately show ?thesis by simp
  next
    case (Inr r)
    obtain ts data where parse: "get_unverified_token_data tok = Inr (ts, data)"
      using Inr by (cases r) auto
    have range: "0 \<le> ts" "ts < 2 ^ 64"
      using get_unverified_token_data_Inr[OF parse] by simp_all
    have loop: "rotate_loop B fs data ts = MultiFernet_decrypt_loop B fs tok None clock"
      using rotate_loop_eq[OF parse] .
    show ?thesis
    proof (cases "MultiFernet_decrypt_loop B fs tok None clock")
      case (Inl e)
      then have e: "e = InvalidToken" using decrypt_loop_error[OF d wf] by blast
      have "\<forall>i<length fs. Fernet_decrypt B (fs ! i) tok None (clock i) = Inl InvalidToken"
        using Inl e decrypt_loop_InvalidToken[of B fs tok None clock] by simp
      then have none: "\<not> (\<exists>f\<in>set fs. \<exists>q. Fernet_decrypt B f tok None now = Inr q)"
        using nodep by (metis in_set_conv_nth sum.distinct(1))
      have "MultiFernet_rotate B m tok iv = Inl InvalidToken"
        using parse loop Inl e by (simp add: MultiFernet_rotate_def m)
      then show ?thesis using none by simp
    next
      case (Inr p)
      obtain i where i: "i < length fs" "Fernet_decrypt B (fs ! i) tok None (clock i) = Inr p"
        using decrypt_loop_Inr[OF Inr] by blast
      have some: "\<exists>f\<in>set fs. \<exists>q. Fernet_decrypt B f tok None now = Inr q"
        using i nodep by (metis nth_mem)
      have rot: "MultiFernet_rotate B m tok iv = encrypt_from_parts B f0 p ts iv"
        using parse loop Inr by (simp add: MultiFernet_rotate_def m fs)
      obtain tok' data' where enc: "encrypt_from_parts B f0 p ts iv = Inr tok'"
        and parse': "get_unverified_token_data tok' = Inr (ts, data')"
        and v': "verify_signature B f0 data' = Inr ()"
        and dec': "decrypt_data B f0 data' ts None = Inr p"
        using encrypt_then_parse[OF assms(1) k0 assms(4) range, of p] by blast
      have 1: "MultiFernet_rotate B m tok iv = Inr tok'" using rot enc by simp
      have 2: "MultiFernet_decrypt B m tok None clock = Inr p"
        using Inr by (simp add: MultiFernet_decrypt_def m)
      have 3: "Fernet_decrypt B (hd fs) tok' None now = Inr p"
        using parse' dec' by (simp add: Fernet_decrypt_None fs)
      have 4: "extract_timestamp B (hd fs) tok' = Inr ts"
        using parse' v' by (simp add: extract_timestamp_def fs)
      have 5: "extract_timestamp B f tok = Inr ts"
        if h: "\<exists>q. Fernet_decrypt B f tok None now = Inr q" for f
      proof -
        obtain q where "decrypt_data B f data ts None = Inr q"
          using h parse by (auto simp: Fernet_decrypt_None)
        then have "verify_signature B f data = Inr ()"
          by (rule decrypt_data_Inr_verified)
        then show ?thesis using parse by (simp add: extract_timestamp_def)
      qed
      show ?thesis using some 1 2 3 4 5 by blast
    qed
  qed
qed

theorem rotate_preserves_timestamp_witness:
  "backend_ok test_backend \<and>
   Fernet_init key_a = Inr fernet_a \<and> Fernet_init key_b = Inr fernet_b \<and>
   MultiFernet_init [fernet_a, fernet_b] = Inr ring_ab \<and> length iv_a = 16 \<and>
   (\<exists>f\<in>set [fernet_a, fernet_b]. \<exists>q. Fernet_decrypt test_backend f token_b None 0 = Inr q) \<and>
   (\<exists>tok'. MultiFernet_rotate test_backend ring_ab token_b iv_a = Inr tok' \<and>
      Fernet_decrypt test_backend fernet_a tok' None 0 = Inr hello \<and>
      extract_timestamp test_backend fernet_a tok' = Inr 1000) \<and>
   extract_timestamp test_backend fernet_b token_b = Inr 1000 \<and>
   \<not> (\<exists>f\<in>set [fernet_a, fernet_b]. \<exists>q. Fernet_decrypt test_backend f bad_tag_token None 0 = Inr q) \<and>
   MultiFernet_rotate test_backend ring_ab bad_tag_token iv_a = Inl InvalidToken"
proof -
  note t = rotate_preserves_timestamp[OF test_backend_ok ring_ab_engines ring_ab_init length_iv_a]
  obtain data where parse: "get_unverified_token_data token_b = Inr (1000, data)"
    and v: "verify_signature test_backend fernet_b data = Inr ()"
    and dec: "decrypt_data test_backend fernet_b data 1000 None = Inr hello"
    using token_b_props by blast
  have b: "Fernet_decrypt test_backend fernet_b token_b None 0 = Inr hello"
    using parse dec by (simp add: Fernet_decrypt_None)
  then have some: "\<exists>f\<in>set [fernet_a, fernet_b]. \<exists>q. Fernet_decrypt test_backend f token_b None 0 = Inr q"
    by auto
  have ring: "MultiFernet_decrypt test_backend ring_ab token_b None (\<lambda>_. 0) = Inr hello"
    using fernet_a_rejects_token_b[of None 0] b
    by (simp add: MultiFernet_decrypt_def ring_ab_def)
  obtain tok' ts p where r: "MultiFernet_rotate test_backend ring_ab token_b iv_a = Inr tok'"
    "MultiFernet_decrypt test_backend ring_ab token_b None (\<lambda>_. 0) = Inr p"
    "Fernet_decrypt test_backend (hd [fernet_a, fernet_b]) tok' None 0 = Inr p"
    "extract_timestamp test_backend (hd [fernet_a, fernet_b]) tok' = Inr ts"
    "\<forall>f\<in>set [fernet_a, fernet_b]. (\<exists>q. Fernet_decrypt test_backend f token_b None 0 = Inr q) \<longrightarrow>
       extract_timestamp test_backend f token_b = Inr ts"
    using t[of token_b 0 "\<lambda>_. 0", THEN conjunct1, rule_format, OF some] by blast
  have p: "p = hello" using r(2) ring by simp
  have eb: "extract_timestamp test_backend fernet_b token_b = Inr ts"
    using r(5)[rule_format, of fernet_b] b by simp
  have e1000: "extract_timestamp test_backend fernet_b token_b = Inr 1000"
    using parse v by (simp add: extract_timestamp_def)
  then have ts: "ts = 1000" using eb by simp
  have rot: "\<exists>tok'. MultiFernet_rotate test_backend ring_ab token_b iv_a = Inr tok' \<and>
      Fernet_decrypt test_backend fernet_a tok' None 0 = Inr hello \<and>
      extract_timestamp test_backend fernet_a tok' = Inr 1000"
    using r(1,3,4) p ts by (intro exI[of _ tok']) simp
  have none: "\<not> (\<exists>f\<in>set [fernet_a, fernet_b]. \<exists>q.
      Fernet_decrypt test_backend f bad_tag_token None 0 = Inr q)"
    using ring_ab_rejects_bad_tag_token[of _ None 0] by auto
  have rb: "MultiFernet_rotate test_backend ring_ab bad_tag_token iv_a = Inl InvalidToken"
    using t[of bad_tag_token 0 "\<lambda>_. 0", THEN conjunct2, rule_format, OF none] .
  show ?thesis
    by (intro conjI test_backend_ok Fernet_init_key_a Fernet_init_key_b ring_ab_init length_iv_a
      some rot e1000 none rb)
qed

subsection \<open>Ring decryption\<close>

text \<open>
  Claim C7. For a ring built from constructed engines, \<open>MultiFernet.decrypt\<close> and
  \<open>MultiFernet.decrypt_at_time\<close> return \<open>p\<close> exactly when some engine returns \<open>p\<close>
  and every engine before it in the list raised \<^verbatim>\<open>InvalidToken\<close>; they fail exactly
  when every engine fails, and then with \<^verbatim>\<open>InvalidToken\<close>. For a ring \<open>[new, old]\<close>, a
  token encrypted under \<open>old\<close> is decrypted, to its payload when \<open>new\<close> rejects it.
\<close>

theorem ring_decrypt_first_success:
  assumes "digest_size_ok B" and "\<forall>f\<in>set fs. \<exists>key. Fernet_init key = Inr f"
    and "MultiFernet_init fs = Inr m"
  shows "(\<forall>p. MultiFernet_decrypt B m msg ttl clock = Inr p \<longleftrightarrow>
            (\<exists>i<length fs. Fernet_decrypt B (fs ! i) msg ttl (clock i) = Inr p \<and>
               (\<forall>j<i. Fernet_decrypt B (fs ! j) msg ttl (clock j) = Inl InvalidToken))) \<and>
         ((\<exists>e. MultiFernet_decrypt B m msg ttl clock = Inl e) \<longleftrightarrow>
            (\<forall>i<length fs. \<exists>e. Fernet_decrypt B (fs ! i) msg ttl (clock i) = Inl e)) \<and>
         (\<forall>e. MultiFernet_decrypt B m msg ttl clock = Inl e \<longrightarrow> e = InvalidToken) \<and>
         (\<forall>p. MultiFernet_decrypt_at_time B m msg (Some t) now = Inr p \<longleftrightarrow>
            (\<exists>i<length fs. Fernet_decrypt_at_time B (fs ! i) msg (Some t) now = Inr p \<and>
               (\<forall>j<i. Fernet_decrypt_at_time B (fs ! j) msg (Some t) now = Inl InvalidToken))) \<and>
         ((\<exists>e. MultiFernet_decrypt_at_time B m msg (Some t) now = Inl e) \<longleftrightarrow>
            (\<forall>i<length fs. \<exists>e. Fernet_decrypt_at_time B (fs ! i) msg (Some t) now = Inl e)) \<and>
         (\<forall>e. MultiFernet_decrypt_at_time B m msg (Some t) now = Inl e \<longrightarrow> e = InvalidToken) \<and>
         (\<forall>new old iv T P tok.
            backend_ok B \<and> fs = [new, old] \<and> length iv = 16 \<and> 0 \<le> T \<and> T < 2 ^ 64 \<and>
            Fernet_encrypt_at_time B old P T iv = Inr tok \<longrightarrow>
            (\<exists>p. MultiFernet_decrypt B m tok None clock = Inr p \<and>
               (Fernet_decrypt B new tok None (clock 0) = Inl InvalidToken \<longrightarrow> p = P)))"
proof -
  have m: "fernets m = fs" using assms(3) by (auto simp: MultiFernet_init_def split: if_splits)
  have wf: "\<forall>f\<in>set fs. length (encryption_key f) = 16"
    using ring_key_lengths[OF assms(2)] .
  note c = ring_decrypt_cases[OF assms(1) wf]
  have old: "\<exists>p. MultiFernet_decrypt B m tok None clock = Inr p \<and>
               (Fernet_decrypt B new tok None (clock 0) = Inl InvalidToken \<longrightarrow> p = P)"
    if a: "backend_ok B \<and> fs = [new, old] \<and> length iv = 16 \<and> 0 \<le> T \<and> T < 2 ^ 64 \<and>
            Fernet_encrypt_at_time B old P T iv = Inr tok"
    for new old iv T P tok
  proof -
    have k: "length (encryption_key old) = 16" "length (encryption_key new) = 16"
      using wf a by simp_all
    obtain tok' data where "encrypt_from_parts B old P T iv = Inr tok'"
      and parse: "get_unverified_token_data tok' = Inr (T, data)"
      and dec: "decrypt_data B old data T None = Inr P"
      using encrypt_then_parse[OF _ k(1), of B iv T P] a by blast
    then have "tok' = tok" using a by (simp add: Fernet_encrypt_at_time_def)
    then have o: "Fernet_decrypt B old tok None (clock 1) = Inr P"
      using parse dec by (simp add: Fernet_decrypt_None)
    show ?thesis
    proof (cases "Fernet_decrypt B new tok None (clock 0)")
      case (Inr q)
      then show ?thesis using a by (simp add: MultiFernet_decrypt_def m)
    next
      case (Inl e)
      then have "e = InvalidToken" using Fernet_decrypt_error[OF assms(1) k(2)] by blast
      then show ?thesis using Inl o a by (simp add: MultiFernet_decrypt_def m)
    qed
  qed
  have at: "Fernet_decrypt_at_time B f msg (Some t) now = Fernet_decrypt B f msg (Some t) now" for f
    by (simp add: Fernet_decrypt_Some)
  show ?thesis
    unfolding MultiFernet_decrypt_def MultiFernet_decrypt_at_time_def m
      decrypt_at_time_loop_eq at
    using c(1)[of msg ttl clock] c(2)[of msg ttl clock] c(3)[of msg ttl clock]
      c(1)[of msg "Some t" "\<lambda>_. now"] c(2)[of msg "Some t" "\<lambda>_. now"]
      c(3)[of msg "Some t" "\<lambda>_. now"] old
    unfolding MultiFernet_decrypt_def m
    by (intro conjI allI impI) blast+
qed

theorem ring_decrypt_first_success_witness:
  "digest_size_ok test_backend \<and> backend_ok test_backend \<and>
   Fernet_init key_a = Inr fernet_a \<and> Fernet_init key_b = Inr fernet_b \<and>
   MultiFernet_init [fernet_a, fernet_b] = Inr ring_ab \<and> length iv_a = 16 \<and>
   Fernet_encrypt_at_time test_backend fernet_b hello 1000 iv_a = Inr token_b \<and>
   Fernet_decrypt test_backend fernet_a token_b None 0 = Inl InvalidToken \<and>
   MultiFernet_decrypt test_backend ring_ab token_b None (\<lambda>_. 0) = Inr hello \<and>
   MultiFernet_decrypt test_backend ring_ab token_a None (\<lambda>_. 0) = Inr hello \<and>
   MultiFernet_decrypt test_backend ring_ab bad_tag_token None (\<lambda>_. 0) = Inl InvalidToken \<and>
   MultiFernet_decrypt_at_time test_backend ring_ab bad_tag_token (Some 10) 1005 = Inl InvalidToken"
proof -
  note t = ring_decrypt_first_success[OF test_digest_size_ok ring_ab_engines ring_ab_init]
  have enc: "Fernet_encrypt_at_time test_backend fernet_b hello 1000 iv_a = Inr token_b"
    using token_b_props by blast
  have rej: "Fernet_decrypt test_backend fernet_a token_b None 0 = Inl InvalidToken"
    by (rule fernet_a_rejects_token_b)
  have pre: "backend_ok test_backend \<and> [fernet_a, fernet_b] = [fernet_a, fernet_b] \<and>
      length iv_a = 16 \<and> (0::int) \<le> 1000 \<and> (1000::int) < 2 ^ 64 \<and>
      Fernet_encrypt_at_time test_backend fernet_b hello 1000 iv_a = Inr token_b"
    using test_backend_ok length_iv_a enc by simp
  have "\<exists>p. MultiFernet_decrypt test_backend ring_ab token_b None (\<lambda>_. 0) = Inr p \<and>
      (Fernet_decrypt test_backend fernet_a token_b None 0 = Inl InvalidToken \<longrightarrow> p = hello)"
    using t[of token_b None "\<lambda>_. 0" 0 0, THEN conjunct2, THEN conjunct2, THEN conjunct2,
        THEN conjunct2, THEN conjunct2, THEN conjunct2, rule_format, OF pre] .
  then have b: "MultiFernet_decrypt test_backend ring_ab token_b None (\<lambda>_. 0) = Inr hello"
    using rej by auto
  have good: "Fernet_decrypt test_backend fernet_a token_a None 0 = Inr hello"
    using token_a_props by (auto simp: Fernet_decrypt_None)
  have a: "MultiFernet_decrypt test_backend ring_ab token_a None (\<lambda>_. 0) = Inr hello"
  proof -
    have "\<exists>i<length [fernet_a, fernet_b].
        Fernet_decrypt test_backend ([fernet_a, fernet_b] ! i) token_a None 0 = Inr hello \<and>
        (\<forall>j<i. Fernet_decrypt test_backend ([fernet_a, fernet_b] ! j) token_a None 0 = Inl InvalidToken)"
      using good by (intro exI[of _ 0]) simp
    then show ?thesis
      using t[of token_a None "\<lambda>_. 0" 0 0, THEN conjunct1, THEN spec, of hello] by (rule iffD2[rotated])
  qed
  have allbad: "\<forall>i<length [fernet_a, fernet_b].
      \<exists>e. Fernet_decrypt test_backend ([fernet_a, fernet_b] ! i) bad_tag_token ttl now = Inl e"
    for ttl now
  proof (intro allI impI)
    fix i assume "i < length [fernet_a, fernet_b]"
    then have "[fernet_a, fernet_b] ! i = fernet_a \<or> [fernet_a, fernet_b] ! i = fernet_b"
      by (cases i) auto
    then show "\<exists>e. Fernet_decrypt test_backend ([fernet_a, fernet_b] ! i) bad_tag_token ttl now = Inl e"
      using ring_ab_rejects_bad_tag_token by blast
  qed
  note tb = t[of bad_tag_token None "\<lambda>_. 0" 10 1005]
  have "\<exists>e. MultiFernet_decrypt test_backend ring_ab bad_tag_token None (\<lambda>_. 0) = Inl e"
    using allbad[of None 0] by (rule iffD2[OF tb[THEN conjunct2, THEN conjunct1]])
  then have c: "MultiFernet_decrypt test_backend ring_ab bad_tag_token None (\<lambda>_. 0) = Inl InvalidToken"
    using tb[THEN conjunct2, THEN conjunct2, THEN conjunct1] by auto
  have "\<exists>e. MultiFernet_decrypt_at_time test_backend ring_ab bad_tag_token (Some 10) 1005 = Inl e"
    using allbad[of "Some 10" 1005] unfolding Fernet_decrypt_Some
    by (rule iffD2[OF tb[THEN conjunct2, THEN conjunct2, THEN conjunct2, THEN conjunct2, THEN conjunct1]])
  then have d: "MultiFernet_decrypt_at_time test_backend ring_ab bad_tag_token (Some 10) 1005
      = Inl InvalidToken"
    using tb[THEN conjunct2, THEN conjunct2, THEN conjunct2, THEN conjunct2, THEN conjunct2,
        THEN conjunct1] by auto
  show ?thesis
    by (intro conjI test_digest_size_ok test_backend_ok Fernet_init_key_a Fernet_init_key_b
      ring_ab_init length_iv_a enc rej a b c d)
qed

subsection \<open>Engine construction\<close>

text \<open>
  Claim C8. \<open>Fernet.__init__\<close> fails exactly when the key does not base64url-decode
  to exactly 32 bytes, and every failure is a \<^verbatim>\<open>ValueError\<close> (the module's own, or
  \<^verbatim>\<open>binascii.Error\<close>, its subclass). On success the signing key is bytes 0..15 and
  the encryption key is bytes 16..31 of the decoded key. In particular the
  encoding of any 31 bytes is rejected.
\<close>

theorem Fernet_init_key_format:
  "((\<exists>e. Fernet_init key = Inl e) \<longleftrightarrow>
      \<not> (\<exists>k. urlsafe_b64decode key = Some k \<and> length k = 32)) \<and>
   (\<forall>e. Fernet_init key = Inl e \<longrightarrow> is_ValueError e) \<and>
   (\<forall>k. urlsafe_b64decode key = Some k \<and> length k = 32 \<longrightarrow>
      (\<exists>f. Fernet_init key = Inr f \<and>
           signing_key f = take 16 k \<and> encryption_key f = drop 16 k \<and>
           signing_key f = map (\<lambda>i. k ! i) [0..<16] \<and>
           encryption_key f = map (\<lambda>i. k ! i) [16..<32] \<and>
           signing_key f @ encryption_key f = k)) \<and>
   (\<forall>k. length k = 31 \<longrightarrow>
      (\<exists>e. Fernet_init (urlsafe_b64encode k) = Inl e \<and> is_ValueError e))"
proof -
  have slices: "take 16 k = map (\<lambda>i. k ! i) [0..<16] \<and> drop 16 k = map (\<lambda>i. k ! i) [16..<32]"
    if "length k = 32" for k :: bytes
  proof -
    have k: "k = map ((!) k) [0..<32]" using map_nth[of k] that by simp
    have "take 16 (map ((!) k) [0..<32]) = map ((!) k) [0..<16]"
      by (simp only: take_map take_upt) simp
    moreover have "drop 16 (map ((!) k) [0..<32]) = map ((!) k) [16..<32]"
      by (simp only: drop_map drop_upt) simp
    ultimately show ?thesis using k by metis
  qed
  have fail: "(\<exists>e. Fernet_init key = Inl e) \<longleftrightarrow>
      \<not> (\<exists>k. urlsafe_b64decode key = Some k \<and> length k = 32)"
    by (auto simp: Fernet_init_def split: option.splits)
  have kind: "\<forall>e. Fernet_init key = Inl e \<longrightarrow> is_ValueError e"
    by (auto simp: Fernet_init_def split: option.splits if_splits)
  have ok: "\<exists>f. Fernet_init key = Inr f \<and>
           signing_key f = take 16 k \<and> encryption_key f = drop 16 k \<and>
           signing_key f = map (\<lambda>i. k ! i) [0..<16] \<and>
           encryption_key f = map (\<lambda>i. k ! i) [16..<32] \<and>
           signing_key f @ encryption_key f = k"
    if "urlsafe_b64decode key = Some k \<and> length k = 32" for k
  proof -
    have "Fernet_init key = Inr \<lparr>signing_key = take 16 k, encryption_key = drop 16 k\<rparr>"
      using that by (simp add: Fernet_init_def)
    moreover have "take 16 k @ drop 16 k = k" by simp
    ultimately show ?thesis using slices[of k] that
      by (intro exI[of _ "\<lparr>signing_key = take 16 k, encryption_key = drop 16 k\<rparr>"])
         (simp del: upt_rec_numeral append_take_drop_id)
  qed
  have short: "\<exists>e. Fernet_init (urlsafe_b64encode k) = Inl e \<and> is_ValueError e"
    if "length k = 31" for k
    using that by (simp add: Fernet_init_def urlsafe_b64_roundtrip)
  show ?thesis using fail kind ok short by blast
qed

theorem Fernet_init_key_format_witness:
  "urlsafe_b64decode key_a = Some (replicate 16 1 @ replicate 16 2) \<and>
   length (replicate 16 (1::byte) @ replicate 16 2) = 32 \<and>
   Fernet_init key_a = Inr \<lparr>signing_key = replicate 16 1, encryption_key = replicate 16 2\<rparr> \<and>
   urlsafe_b64decode malformed_token = None \<and>
   Fernet_init malformed_token = Inl BinasciiError \<and>
   length (replicate 31 (0::byte)) = 31 \<and>
   Fernet_init (urlsafe_b64encode (replicate 31 0)) = Inl ValueError"
proof -
  have d: "urlsafe_b64decode key_a = Some (replicate 16 1 @ replicate 16 2)"
    by (simp add: key_a_def urlsafe_b64_roundtrip)
  have l: "length (replicate 16 (1::byte) @ replicate 16 2) = 32" by simp
  have m: "urlsafe_b64decode malformed_token = None"
    by (simp add: malformed_token_def urlsafe_b64decode_def a2b_base64_def
        urlsafe_decode_translation_def table_a2b_base64_def)
  have "\<exists>f. Fernet_init key_a = Inr f \<and> signing_key f = take 16 (replicate 16 1 @ replicate 16 2)
          \<and> encryption_key f = drop 16 (replicate 16 1 @ replicate 16 2)"
    using Fernet_init_key_format[of key_a] d l by blast
  then have a: "Fernet_init key_a = Inr \<lparr>signing_key = replicate 16 1, encryption_key = replicate 16 2\<rparr>"
    by auto
  have "\<exists>e. Fernet_init malformed_token = Inl e"
    using Fernet_init_key_format[of malformed_token] m by simp
  then have b: "Fernet_init malformed_token = Inl BinasciiError"
    by (auto simp: Fernet_init_def m)
  have "\<exists>e. Fernet_init (urlsafe_b64encode (replicate 31 0)) = Inl e"
    using Fernet_init_key_format[of key_a] by (metis length_replicate)
  then have c: "Fernet_init (urlsafe_b64encode (replicate 31 0)) = Inl ValueError"
    by (auto simp: Fernet_init_def urlsafe_b64_roundtrip)
  show ?thesis using d l a m b c by simp
qed

subsection \<open>Reading the timestamp without decrypting\<close>

text \<open>
  Claim C9. \<open>extract_timestamp\<close> returns the embedded timestamp of every token
  that parses (valid base64, first byte \<open>0x80\<close>, eight timestamp bytes) and whose
  trailing 32 bytes are the MAC of the rest; it makes no ttl check and does not touch
  the IV, the ciphertext or the padding. So it succeeds on tokens that \<open>decrypt\<close>
  rejects: a signed body with no IV and no ciphertext (\<open>headless_token\<close>), and a
  signed body whose plaintext block has invalid padding (\<open>zero_block_token\<close>).
\<close>

theorem extract_timestamp_without_decrypting:
  "(\<forall>ts data. get_unverified_token_data token = Inr (ts, data) \<and>
        drop (length data - 32) data =
          hmac_sha256 B (signing_key f) (take (length data - 32) data) \<longrightarrow>
      extract_timestamp B f token = Inr ts) \<and>
   (backend_ok B \<and> Fernet_init key = Inr f \<and> length iv = 16 \<and> 0 \<le> T \<and> T < 2 ^ 64 \<longrightarrow>
      extract_timestamp B f (headless_token B f T) = Inr T \<and>
      Fernet_decrypt B f (headless_token B f T) ttl now = Inl InvalidToken \<and>
      extract_timestamp B f (zero_block_token B f T iv) = Inr T \<and>
      Fernet_decrypt B f (zero_block_token B f T iv) ttl now = Inl InvalidToken)"
proof (intro conjI allI impI)
  fix ts data
  assume "get_unverified_token_data token = Inr (ts, data) \<and>
        drop (length data - 32) data =
          hmac_sha256 B (signing_key f) (take (length data - 32) data)"
  then show "extract_timestamp B f token = Inr ts"
    by (simp add: extract_timestamp_def verify_signature_def)
next
  assume a: "backend_ok B \<and> Fernet_init key = Inr f \<and> length iv = 16 \<and> 0 \<le> T \<and> T < 2 ^ 64"
  then have k: "length (encryption_key f) = 16"
    using Fernet_init_key_lengths by blast
  have d: "digest_size_ok B" "cbc_length_ok B" using a by (simp_all add: backend_ok_def)
  show "extract_timestamp B f (headless_token B f T) = Inr T"
    "Fernet_decrypt B f (headless_token B f T) ttl now = Inl InvalidToken"
    using headless_token_props[OF d k, of T ttl now] a by simp_all
  show "extract_timestamp B f (zero_block_token B f T iv) = Inr T"
    "Fernet_decrypt B f (zero_block_token B f T iv) ttl now = Inl InvalidToken"
    using zero_block_token_props[OF _ k, of B iv T ttl now] a by simp_all
qed

theorem extract_timestamp_without_decrypting_witness:
  "(\<exists>data. get_unverified_token_data token_a = Inr (1000, data) \<and>
      drop (length data - 32) data =
        hmac_sha256 test_backend (signing_key fernet_a) (take (length data - 32) data)) \<and>
   extract_timestamp test_backend fernet_a token_a = Inr 1000 \<and>
   backend_ok test_backend \<and> Fernet_init key_a = Inr fernet_a \<and> length iv_a = 16 \<and>
   extract_timestamp test_backend fernet_a (headless_token test_backend fernet_a 1000) = Inr 1000 \<and>
   Fernet_decrypt test_backend fernet_a (headless_token test_backend fernet_a 1000) None 0
     = Inl InvalidToken \<and>
   extract_timestamp test_backend fernet_a (zero_block_token test_backend fernet_a 1000 iv_a)
     = Inr 1000 \<and>
   Fernet_decrypt test_backend fernet_a (zero_block_token test_backend fernet_a 1000 iv_a) None 0
     = Inl InvalidToken"
proof -
  obtain data where parse: "get_unverified_token_data token_a = Inr (1000, data)"
    and v: "verify_signature test_backend fernet_a data = Inr ()"
    using token_a_props by blast
  have tag: "drop (length data - 32) data =
        hmac_sha256 test_backend (signing_key fernet_a) (take (length data - 32) data)"
    using v by (simp add: verify_signature_Inr)
  note t = extract_timestamp_without_decrypting[of token_a test_backend fernet_a key_a iv_a 1000 None 0]
  have "extract_timestamp test_backend fernet_a token_a = Inr 1000"
    using t parse tag by blast
  then show ?thesis
    using t parse tag test_backend_ok Fernet_init_key_a length_iv_a by auto
qed

subsection \<open>No ttl, no timestamp check\<close>

text \<open>
  Claim C10. When no ttl is given, \<open>decrypt\<close> makes no timestamp check: its result
  does not depend on the clock, and \<^verbatim>\<open>_decrypt_data\<close> does not depend on the
  timestamp. A token accepted under some ttl policy is accepted without ttl at every
  clock reading, and a token issued at any time \<open>T\<close> in \<open>[0, 2^64 - 1]\<close> decrypts
  without ttl at every clock reading, also where a ttl policy rejects it as expired
  or as future-dated beyond the 60-second skew.
\<close>

theorem no_ttl_no_timestamp_check:
  "Fernet_decrypt B f token None now = Fernet_decrypt B f token None now' \<and>
   decrypt_data B f data ts None = decrypt_data B f data ts' None \<and>
   (\<forall>ttl p. Fernet_decrypt B f token (Some ttl) now = Inr p \<longrightarrow>
      Fernet_decrypt B f token None now' = Inr p) \<and>
   (backend_ok B \<and> Fernet_init key = Inr f \<and> length iv = 16 \<and> 0 \<le> T \<and> T < 2 ^ 64 \<longrightarrow>
      (\<exists>tok. Fernet_encrypt_at_time B f P T iv = Inr tok \<and>
         (\<forall>clock. Fernet_decrypt B f tok None clock = Inr P) \<and>
         (\<forall>ttl clock. T + ttl < clock \<or> clock + 60 < T \<longrightarrow>
            Fernet_decrypt B f tok (Some ttl) clock = Inl InvalidToken)))"
proof (intro conjI allI impI)
  show "Fernet_decrypt B f token None now = Fernet_decrypt B f token None now'"
    by (simp add: Fernet_decrypt_None)
  show "decrypt_data B f data ts None = decrypt_data B f data ts' None"
    by (rule decrypt_data_timestamp_irrelevant)
next
  fix ttl p assume a: "Fernet_decrypt B f token (Some ttl) now = Inr p"
  then obtain ts d where parse: "get_unverified_token_data token = Inr (ts, d)"
    by (auto simp: Fernet_decrypt_def split: sum.splits)
  have "decrypt_data B f d ts None = Inr p"
    using a unfolding Fernet_decrypt_Some Fernet_decrypt_at_time_parsed[OF parse]
    by (simp split: if_splits)
  then show "Fernet_decrypt B f token None now' = Inr p"
    by (simp add: Fernet_decrypt_None parse)
next
  assume a: "backend_ok B \<and> Fernet_init key = Inr f \<and> length iv = 16 \<and> 0 \<le> T \<and> T < 2 ^ 64"
  then have k: "length (encryption_key f) = 16"
    using Fernet_init_key_lengths by blast
  obtain tok d where enc: "encrypt_from_parts B f P T iv = Inr tok"
    and parse: "get_unverified_token_data tok = Inr (T, d)"
    and dec: "decrypt_data B f d T None = Inr P"
    using encrypt_then_parse[OF _ k, of B iv T P] a by blast
  have "\<forall>clock. Fernet_decrypt B f tok None clock = Inr P"
    by (simp add: Fernet_decrypt_None parse dec)
  moreover have "\<forall>ttl clock. T + ttl < clock \<or> clock + 60 < T \<longrightarrow>
            Fernet_decrypt B f tok (Some ttl) clock = Inl InvalidToken"
    by (simp add: Fernet_decrypt_Some Fernet_decrypt_at_time_parsed[OF parse])
  ultimately show "\<exists>tok. Fernet_encrypt_at_time B f P T iv = Inr tok \<and>
         (\<forall>clock. Fernet_decrypt B f tok None clock = Inr P) \<and>
         (\<forall>ttl clock. T + ttl < clock \<or> clock + 60 < T \<longrightarrow>
            Fernet_decrypt B f tok (Some ttl) clock = Inl InvalidToken)"
    using enc by (auto simp: Fernet_encrypt_at_time_def)
qed

theorem no_ttl_no_timestamp_check_witness:
  "Fernet_decrypt test_backend fernet_a token_a (Some 10) 1005 = Inr hello \<and>
   Fernet_decrypt test_backend fernet_a token_a None 999999999 = Inr hello \<and>
   Fernet_decrypt test_backend fernet_a token_a None 0 = Inr hello \<and>
   backend_ok test_backend \<and> Fernet_init key_a = Inr fernet_a \<and> length iv_a = 16 \<and>
   (\<exists>tok. Fernet_encrypt_at_time test_backend fernet_a hello (2 ^ 64 - 1) iv_a = Inr tok \<and>
      Fernet_decrypt test_backend fernet_a tok None 0 = Inr hello \<and>
      Fernet_decrypt test_backend fernet_a tok (Some 10) 0 = Inl InvalidToken)"
proof -
  obtain data where parse: "get_unverified_token_data token_a = Inr (1000, data)"
    and dec: "decrypt_data test_backend fernet_a data 1000 None = Inr hello"
    using token_a_props by blast
  have s: "Fernet_decrypt test_backend fernet_a token_a (Some 10) 1005 = Inr hello"
    by (simp add: Fernet_decrypt_Some Fernet_decrypt_at_time_parsed[OF parse] dec)
  have n1: "Fernet_decrypt test_backend fernet_a token_a None 999999999 = Inr hello"
    using no_ttl_no_timestamp_check[of test_backend fernet_a token_a 1005 999999999] s by blast
  have n2: "Fernet_decrypt test_backend fernet_a token_a None 0 = Inr hello"
    using no_ttl_no_timestamp_check[of test_backend fernet_a token_a 1005 0] s by blast
  have "\<exists>tok. Fernet_encrypt_at_time test_backend fernet_a hello (2 ^ 64 - 1) iv_a = Inr tok \<and>
         (\<forall>clock. Fernet_decrypt test_backend fernet_a tok None clock = Inr hello) \<and>
         (\<forall>ttl clock. (2 ^ 64 - 1) + ttl < clock \<or> clock + 60 < (2 ^ 64 - 1 :: int) \<longrightarrow>
            Fernet_decrypt test_backend fernet_a tok (Some ttl) clock = Inl InvalidToken)"
    using no_ttl_no_timestamp_check[of test_backend fernet_a token_a 0 0 data 0 0 key_a iv_a
        "2 ^ 64 - 1" hello]
      test_backend_ok Fernet_init_key_a length_iv_a by simp
  then obtain tok where
    "Fernet_encrypt_at_time test_backend fernet_a hello (2 ^ 64 - 1) iv_a = Inr tok"
    "Fernet_decrypt test_backend fernet_a tok None 0 = Inr hello"
    "Fernet_decrypt test_backend fernet_a tok (Some 10) 0 = Inl InvalidToken"
    by force
  then show ?thesis
    using s n1 n2 test_backend_ok Fernet_init_key_a length_iv_a by blast
qed

end
